theory Spec2Isabelle
  imports Main "HOL-Library.Finite_Map" "HOL-Library.Word"
begin

section \<open>Errors and results\<close>

text \<open>
  The error values of \<^verbatim>\<open>repository_pool.go\<close>. \<open>EOF\<close> is \<^verbatim>\<open>io.EOF\<close>;
  \<open>ErrRepoCannotOpen cause path\<close> is \<^verbatim>\<open>errRepoCannotOpen.Wrap(err, path)\<close>;
  \<open>ExternalError\<close> stands for any error value produced by a collaborator (go-git, the
  file system, a per-repository iterator) that is none of the values above.
\<close>

datatype error =
    EOF
  | ErrSessionCanceled
  | ErrInvalidGitbaseSession
  | ErrRepoAlreadyRegistered string
  | ErrRepoCannotOpen error string
  | ErrPoolRepoNotFound string
  | ExternalError string

text \<open>
  A Go call returning \<^verbatim>\<open>(value, error)\<close> either yields the value, yields an error, or
  panics (a run-time panic unwinds through every caller in this file, none recovers).
\<close>

datatype 'a result = Ok 'a | Err error | Panic string

section \<open>Backends and repository handles\<close>

text \<open>
  \<^verbatim>\<open>*git.Repository\<close> is opaque to this file; a handle is identified here by the location
  it was opened from.
\<close>

type_synonym git_Repository = string

record Repository =
  ID :: string
  Repo :: git_Repository

definition NewRepository :: "string \<Rightarrow> git_Repository \<Rightarrow> Repository" where
  "NewRepository i repo = \<lparr>ID = i, Repo = repo\<rparr>"

text \<open>
  The collaborators that touch the file system. \<open>sivafs_Open path\<close> summarises the chain
  \<^verbatim>\<open>ioutil.TempDir\<close>, \<^verbatim>\<open>sivafs.NewFilesystem\<close>, \<^verbatim>\<open>filesystem.NewStorage\<close>, \<^verbatim>\<open>git.Open\<close> of
  \<^verbatim>\<open>NewSivaRepositoryFromPath\<close>, each of which hands its error back unchanged.
  \<open>IDFromPath\<close> is called by \<^verbatim>\<open>AddDir\<close> and defined elsewhere in the package.
\<close>

record FileInfo =
  Name :: string
  IsDir :: bool

record git_env =
  git_PlainOpen :: "string \<Rightarrow> error + git_Repository"
  sivafs_Open :: "string \<Rightarrow> error + git_Repository"
  ioutil_ReadDir :: "string \<Rightarrow> error + FileInfo list"
  IDFromPath :: "int \<Rightarrow> string \<Rightarrow> string"

definition NewRepositoryFromPath :: "git_env \<Rightarrow> string \<Rightarrow> string \<Rightarrow> Repository result" where
  "NewRepositoryFromPath env i path =
     (case git_PlainOpen env path of
        Inl err \<Rightarrow> Err err
      | Inr repo \<Rightarrow> Ok (NewRepository i repo))"

definition NewSivaRepositoryFromPath :: "git_env \<Rightarrow> string \<Rightarrow> string \<Rightarrow> Repository result" where
  "NewSivaRepositoryFromPath env i path =
     (case sivafs_Open env path of
        Inl err \<Rightarrow> Err err
      | Inr repo \<Rightarrow> Ok (NewRepository i repo))"

text \<open>
  The interface \<^verbatim>\<open>repository\<close> has two implementations, \<^verbatim>\<open>gitRepository{id, path}\<close> and
  \<^verbatim>\<open>sivaRepository{id, path}\<close>.
\<close>

datatype repository = gitRepository string string | sivaRepository string string

definition gitRepo :: "string \<Rightarrow> string \<Rightarrow> repository" where
  "gitRepo i path = gitRepository i path"

definition sivaRepo :: "string \<Rightarrow> string \<Rightarrow> repository" where
  "sivaRepo i path = sivaRepository i path"

fun repository_ID :: "repository \<Rightarrow> string" where
  "repository_ID (gitRepository i path) = i"
| "repository_ID (sivaRepository i path) = i"

fun repository_Path :: "repository \<Rightarrow> string" where
  "repository_Path (gitRepository i path) = path"
| "repository_Path (sivaRepository i path) = path"

fun repository_Repo :: "git_env \<Rightarrow> repository \<Rightarrow> Repository result" where
  "repository_Repo env (gitRepository i path) = NewRepositoryFromPath env i path"
| "repository_Repo env (sivaRepository i path) = NewSivaRepositoryFromPath env i path"

section \<open>The repository pool\<close>

record RepositoryPool =
  repositories :: "(string, repository) fmap"
  idOrder :: "string list"

definition NewRepositoryPool :: RepositoryPool where
  "NewRepositoryPool = \<lparr>repositories = fmempty, idOrder = []\<rparr>"

text \<open>\<^verbatim>\<open>Add\<close> returns its error and the pool as the call leaves it.\<close>

definition Add :: "repository \<Rightarrow> RepositoryPool \<Rightarrow> error option \<times> RepositoryPool" where
  "Add repo p =
     (let i = repository_ID repo in
      case fmlookup (repositories p) i of
        Some r \<Rightarrow> (Some (ErrRepoAlreadyRegistered (repository_Path r)), p)
      | None \<Rightarrow>
          (None, p\<lparr>idOrder := idOrder p @ [i],
                   repositories := fmupd i repo (repositories p)\<rparr>))"

definition GetRepo :: "git_env \<Rightarrow> RepositoryPool \<Rightarrow> string \<Rightarrow> Repository result" where
  "GetRepo env p i =
     (case fmlookup (repositories p) i of
        None \<Rightarrow> Err (ErrPoolRepoNotFound i)
      | Some r \<Rightarrow> repository_Repo env r)"

text \<open>
  \<^verbatim>\<open>GetPos\<close> compares the position with the size of the map and then indexes the
  slice: \<^verbatim>\<open>p.idOrder[pos]\<close> panics when \<open>pos\<close> is negative or not below the length of
  the slice.
\<close>

definition GetPos :: "git_env \<Rightarrow> RepositoryPool \<Rightarrow> int \<Rightarrow> Repository result" where
  "GetPos env p pos =
     (if pos \<ge> int (fcard (fmdom (repositories p))) then Err EOF
      else if pos < 0 \<or> nat pos \<ge> length (idOrder p) then Panic ''index out of range''
      else
        let i = idOrder p ! nat pos in
        if i = [] then Err EOF else GetRepo env p i)"

text \<open>
  A pool built by a sequence of registrations that all succeed: \<open>Add_list rs p\<close> calls
  \<open>Add\<close> for each backend of \<open>rs\<close> in turn and is \<open>None\<close> as soon as one call returns
  an error.
\<close>

fun Add_list :: "repository list \<Rightarrow> RepositoryPool \<Rightarrow> RepositoryPool option" where
  "Add_list [] p = Some p"
| "Add_list (r # rs) p =
     (case Add r p of
        (None, p') \<Rightarrow> Add_list rs p'
      | (Some err, p') \<Rightarrow> None)"

text \<open>
  The invariant of a pool: the slice lists each key of the map once, and each backend is
  stored under its own id.
\<close>

definition pool_inv :: "RepositoryPool \<Rightarrow> bool" where
  "pool_inv p \<longleftrightarrow>
     distinct (idOrder p) \<and>
     fmdom (repositories p) = fset_of_list (idOrder p) \<and>
     list_all (\<lambda>i. case fmlookup (repositories p) i of
                      None \<Rightarrow> False
                    | Some r \<Rightarrow> repository_ID r = i) (idOrder p)"

text \<open>The backends of a pool in registration order.\<close>

definition backends :: "RepositoryPool \<Rightarrow> repository option list" where
  "backends p = map (fmlookup (repositories p)) (idOrder p)"

text \<open>An environment in which every location opens: the handle is the location.\<close>

definition env_ok :: git_env where
  "env_ok = \<lparr>git_PlainOpen = Inr, sivafs_Open = Inr,
             ioutil_ReadDir = (\<lambda>p. Inl (ExternalError ''no such directory'')),
             IDFromPath = (\<lambda>n p. p)\<rparr>"

section \<open>Strings and paths\<close>

text \<open>
  The functions of Go's \<^verbatim>\<open>strings\<close> and \<^verbatim>\<open>path/filepath\<close> packages that the bulk
  registration code calls, for a Unix separator. A Go string is a sequence of bytes, as
  \<open>string\<close> is here.
\<close>

definition HasPrefix :: "string \<Rightarrow> string \<Rightarrow> bool" where
  "HasPrefix s pre \<longleftrightarrow> take (length pre) s = pre"

definition HasSuffix :: "string \<Rightarrow> string \<Rightarrow> bool" where
  "HasSuffix s suf \<longleftrightarrow> length suf \<le> length s \<and> drop (length s - length suf) s = suf"

definition TrimPrefix :: "string \<Rightarrow> string \<Rightarrow> string" where
  "TrimPrefix s pre = (if HasPrefix s pre then drop (length pre) s else s)"

text \<open>
  \<open>Replace_by_empty s old\<close> is \<^verbatim>\<open>strings.Replace(s, old, "", -1)\<close>: every non-overlapping
  occurrence of \<open>old\<close>, found from the left, is removed; an empty \<open>old\<close> matches between
  the characters and removing nothing leaves \<open>s\<close>.
\<close>

function Replace_by_empty :: "string \<Rightarrow> string \<Rightarrow> string" where
  "Replace_by_empty s old =
     (if old = [] \<or> s = [] then s
      else if HasPrefix s old then Replace_by_empty (drop (length old) s) old
      else hd s # Replace_by_empty (tl s) old)"
  by pat_completeness auto
termination
  by (relation "measure (\<lambda>(s, old). length s)") auto

text \<open>The elements of a path between its separators.\<close>

fun split_slash :: "string \<Rightarrow> string list" where
  "split_slash [] = [ []]"
| "split_slash (c # cs) =
     (if c = CHR ''/'' then [] # split_slash cs
      else (case split_slash cs of
              [] \<Rightarrow> [ [c]]
            | e # es \<Rightarrow> (c # e) # es))"

fun join_slash :: "string list \<Rightarrow> string" where
  "join_slash [] = []"
| "join_slash [e] = e"
| "join_slash (e # es) = e @ CHR ''/'' # join_slash es"

text \<open>
  The loop of \<^verbatim>\<open>filepath.Clean\<close> over the elements of the path: \<open>out\<close> holds the elements
  written so far, the last one first. An empty element and \<^verbatim>\<open>.\<close> are dropped; \<^verbatim>\<open>..\<close>
  removes the last element written when there is one that is not itself \<^verbatim>\<open>..\<close>, is kept
  in a path that is not rooted, and is dropped at the root.
\<close>

fun clean_elems :: "bool \<Rightarrow> string list \<Rightarrow> string list \<Rightarrow> string list" where
  "clean_elems rooted out [] = rev out"
| "clean_elems rooted out (e # es) =
     (if e = [] \<or> e = ''.'' then clean_elems rooted out es
      else if e = ''..'' then
        (if out \<noteq> [] \<and> hd out \<noteq> ''..'' then clean_elems rooted (tl out) es
         else if \<not> rooted then clean_elems rooted (''..'' # out) es
         else clean_elems rooted out es)
      else clean_elems rooted (e # out) es)"

definition filepath_Clean :: "string \<Rightarrow> string" where
  "filepath_Clean path =
     (if path = [] then ''.''
      else
        let rooted = (hd path = CHR ''/'');
            body = join_slash (clean_elems rooted [] (split_slash path))
        in if rooted then CHR ''/'' # body
           else if body = [] then ''.''
           else body)"

text \<open>\<^verbatim>\<open>filepath.Join\<close> of two elements: leading empty elements are ignored.\<close>

definition filepath_Join :: "string \<Rightarrow> string \<Rightarrow> string" where
  "filepath_Join a b =
     (if a \<noteq> [] then filepath_Clean (a @ CHR ''/'' # b)
      else if b \<noteq> [] then filepath_Clean b
      else [])"

definition strip_trailing_slashes :: "string \<Rightarrow> string" where
  "strip_trailing_slashes path = rev (dropWhile (\<lambda>c. c = CHR ''/'') (rev path))"

definition filepath_Base :: "string \<Rightarrow> string" where
  "filepath_Base path =
     (if path = [] then ''.''
      else
        let p = strip_trailing_slashes path;
            last_elem = rev (takeWhile (\<lambda>c. c \<noteq> CHR ''/'') (rev p))
        in if last_elem = [] then ''/'' else last_elem)"

section \<open>Logging\<close>

text \<open>
  A \<^verbatim>\<open>logrus\<close> call appends one entry to the log: its level, its fields and its message.
\<close>

datatype log_level = DebugLevel | WarnLevel | ErrorLevel

datatype log_value = LStr string | LErr error

record log_entry =
  entry_level :: log_level
  entry_fields :: "(string \<times> log_value) list"
  entry_message :: string

definition log_with :: "log_level \<Rightarrow> (string \<times> log_value) list \<Rightarrow> string \<Rightarrow> log_entry" where
  "log_with l fs msg = \<lparr>entry_level = l, entry_fields = fs, entry_message = msg\<rparr>"

section \<open>Registration by path\<close>

definition AddGitWithID ::
  "git_env \<Rightarrow> string \<Rightarrow> string \<Rightarrow> RepositoryPool \<Rightarrow> string \<times> error option \<times> RepositoryPool" where
  "AddGitWithID env i path p =
     (case git_PlainOpen env path of
        Inl err \<Rightarrow> ([], Some (ErrRepoCannotOpen err path), p)
      | Inr repo \<Rightarrow>
          (case Add (gitRepo i path) p of
             (Some err, p') \<Rightarrow> ([], Some err, p')
           | (None, p') \<Rightarrow> (path, None, p')))"

definition AddGit ::
  "git_env \<Rightarrow> string \<Rightarrow> RepositoryPool \<Rightarrow> string \<times> error option \<times> RepositoryPool" where
  "AddGit env path p = AddGitWithID env path path p"

text \<open>The body of the \<^verbatim>\<open>for\<close> loop of \<^verbatim>\<open>AddDir\<close>, for one directory entry.\<close>

definition AddDir_entry ::
  "git_env \<Rightarrow> int \<Rightarrow> string \<Rightarrow> FileInfo \<Rightarrow> RepositoryPool \<Rightarrow> log_entry list
     \<Rightarrow> RepositoryPool \<times> log_entry list" where
  "AddDir_entry env prefix path f p lg =
     (if IsDir f then
        let pa = filepath_Join path (Name f);
            i = IDFromPath env prefix pa
        in (case AddGitWithID env i pa p of
              (_, Some err, p') \<Rightarrow>
                (p', lg @ [log_with ErrorLevel
                             [(''id'', LStr i), (''path'', LStr pa), (''error'', LErr err)]
                             ''repository could not be added''])
            | (_, None, p') \<Rightarrow>
                (p', lg @ [log_with DebugLevel [(''path'', LStr pa)] ''repository added'']))
      else (p, lg))"

fun AddDir_loop ::
  "git_env \<Rightarrow> int \<Rightarrow> string \<Rightarrow> FileInfo list \<Rightarrow> RepositoryPool \<Rightarrow> log_entry list
     \<Rightarrow> RepositoryPool \<times> log_entry list" where
  "AddDir_loop env prefix path [] p lg = (p, lg)"
| "AddDir_loop env prefix path (f # fs) p lg =
     (case AddDir_entry env prefix path f p lg of
        (p', lg') \<Rightarrow> AddDir_loop env prefix path fs p' lg')"

definition AddDir ::
  "git_env \<Rightarrow> int \<Rightarrow> string \<Rightarrow> RepositoryPool \<Rightarrow> log_entry list
     \<Rightarrow> error option \<times> RepositoryPool \<times> log_entry list" where
  "AddDir env prefix path p lg =
     (case ioutil_ReadDir env path of
        Inl err \<Rightarrow> (Some err, p, lg)
      | Inr dirs \<Rightarrow>
          (case AddDir_loop env prefix path dirs p lg of
             (p', lg') \<Rightarrow> (None, p', lg')))"

text \<open>
  The first statement of \<^verbatim>\<open>addSivaFile\<close>: the name of the file relative to the root of
  the scan. \<^verbatim>\<open>strings.TrimPrefix\<close> is given the two characters slash and backslash.
\<close>

definition relativeFileName :: "string \<Rightarrow> string \<Rightarrow> FileInfo \<Rightarrow> string" where
  "relativeFileName root path f =
     (if root = path then Name f
      else
        let relPath = TrimPrefix (Replace_by_empty path root) [CHR ''/'', CHR 0x5C]
        in filepath_Join relPath (Name f))"

text \<open>
  \<^verbatim>\<open>addSivaFile\<close>: the relative name goes to the log only; the backend is
  \<^verbatim>\<open>sivaRepo(path, path)\<close> for the joined path, and the error of \<^verbatim>\<open>Add\<close> is dropped.
\<close>

definition addSivaFile ::
  "string \<Rightarrow> string \<Rightarrow> FileInfo \<Rightarrow> RepositoryPool \<Rightarrow> log_entry list
     \<Rightarrow> RepositoryPool \<times> log_entry list" where
  "addSivaFile root path f p lg =
     (if HasSuffix (Name f) ''.siva'' then
        let path' = filepath_Join path (Name f)
        in (snd (Add (sivaRepo path' path') p),
            lg @ [log_with DebugLevel [(''file'', LStr (relativeFileName root path f))]
                    ''repository added''])
      else
        (p, lg @ [log_with WarnLevel [(''file'', LStr (relativeFileName root path f))]
                    ''found a non-siva file, skipping'']))"

text \<open>
  \<^verbatim>\<open>addSivaDir\<close> and its \<^verbatim>\<open>for\<close> loop. A subdirectory is scanned with
  \<open>recursive = False\<close>, and its error ends the loop.
\<close>

function addSivaDir ::
  "git_env \<Rightarrow> string \<Rightarrow> string \<Rightarrow> bool \<Rightarrow> RepositoryPool \<Rightarrow> log_entry list
     \<Rightarrow> error option \<times> RepositoryPool \<times> log_entry list"
and addSivaDir_loop ::
  "git_env \<Rightarrow> string \<Rightarrow> string \<Rightarrow> bool \<Rightarrow> FileInfo list \<Rightarrow> RepositoryPool \<Rightarrow> log_entry list
     \<Rightarrow> error option \<times> RepositoryPool \<times> log_entry list" where
  "addSivaDir env root path recursive p lg =
     (case ioutil_ReadDir env path of
        Inl err \<Rightarrow> (Some err, p, lg)
      | Inr dirs \<Rightarrow> addSivaDir_loop env root path recursive dirs p lg)"
| "addSivaDir_loop env root path recursive [] p lg = (None, p, lg)"
| "addSivaDir_loop env root path recursive (f # fs) p lg =
     (if IsDir f \<and> recursive then
        (case addSivaDir env root (filepath_Join path (Name f)) False p lg of
           (Some err, p', lg') \<Rightarrow> (Some err, p', lg')
         | (None, p', lg') \<Rightarrow> addSivaDir_loop env root path recursive fs p' lg')
      else
        (case addSivaFile root path f p lg of
           (p', lg') \<Rightarrow> addSivaDir_loop env root path recursive fs p' lg'))"
  by pat_completeness auto
termination
  by (relation "measures
        [\<lambda>x. case x of Inl (env, root, path, r, p, lg) \<Rightarrow> (if r then 1 else 0)
                     | Inr (env, root, path, r, fs, p, lg) \<Rightarrow> (if r then 1 else 0),
         \<lambda>x. case x of Inl _ \<Rightarrow> 1 | Inr _ \<Rightarrow> 0,
         \<lambda>x. case x of Inl _ \<Rightarrow> 0
                     | Inr (env, root, path, r, fs, p, lg) \<Rightarrow> length fs]") auto

definition AddSivaDir ::
  "git_env \<Rightarrow> string \<Rightarrow> RepositoryPool \<Rightarrow> log_entry list
     \<Rightarrow> error option \<times> RepositoryPool \<times> log_entry list" where
  "AddSivaDir env path p lg = addSivaDir env path path True p lg"

text \<open>
  \<^verbatim>\<open>AddSivaFile\<close> has no result: the suffix test guards the warning only, and the error
  of \<^verbatim>\<open>Add\<close> is dropped.
\<close>

definition AddSivaFile ::
  "string \<Rightarrow> string \<Rightarrow> RepositoryPool \<Rightarrow> log_entry list \<Rightarrow> RepositoryPool \<times> log_entry list" where
  "AddSivaFile i path p lg =
     (let file = filepath_Base path;
          lg1 = (if \<not> HasSuffix file ''.siva''
                 then lg @ [log_with WarnLevel [(''file'', LStr file)] ''found a non-siva file'']
                 else lg)
      in (snd (Add (sivaRepo i path) p),
          lg1 @ [log_with DebugLevel [(''file'', LStr file)] ''repository added'']))"

text \<open>
  What \<^verbatim>\<open>addSivaFile\<close> leaves behind for the entry \<open>f\<close> of the directory \<open>path\<close>: a
  name with the suffix is a key of the pool under the joined path, any other name has its
  warning in the log.
\<close>

definition siva_entry_done ::
  "string \<Rightarrow> string \<Rightarrow> FileInfo \<Rightarrow> RepositoryPool \<Rightarrow> log_entry list \<Rightarrow> bool" where
  "siva_entry_done root path f p lg \<longleftrightarrow>
     (if HasSuffix (Name f) ''.siva''
      then filepath_Join path (Name f) |\<in>| fmdom (repositories p)
      else log_with WarnLevel [(''file'', LStr (relativeFileName root path f))]
             ''found a non-siva file, skipping'' \<in> set lg)"

text \<open>
  What \<^verbatim>\<open>AddDir\<close> leaves behind for the subdirectory \<open>f\<close> of \<open>path\<close>: when the
  directory opens as a repository its id is a key of the pool, and when it does not the
  error is in the log.
\<close>

definition git_entry_done ::
  "git_env \<Rightarrow> int \<Rightarrow> string \<Rightarrow> FileInfo \<Rightarrow> RepositoryPool \<Rightarrow> log_entry list \<Rightarrow> bool" where
  "git_entry_done env prefix path f p lg \<longleftrightarrow>
     (let pa = filepath_Join path (Name f);
          i = IDFromPath env prefix pa
      in case git_PlainOpen env pa of
           Inr repo \<Rightarrow> i |\<in>| fmdom (repositories p)
         | Inl err \<Rightarrow>
             log_with ErrorLevel
               [(''id'', LStr i), (''path'', LStr pa),
                (''error'', LErr (ErrRepoCannotOpen err pa))]
               ''repository could not be added'' \<in> set lg)"

text \<open>
  What \<^verbatim>\<open>addSivaDir\<close> with \<open>recursive = True\<close> leaves behind for the entry \<open>f\<close> of
  \<open>path\<close>: a subdirectory has been read and each of its entries handled by
  \<^verbatim>\<open>addSivaFile\<close>, any other entry has been handled by \<^verbatim>\<open>addSivaFile\<close> itself.
\<close>

definition siva_scan_done ::
  "git_env \<Rightarrow> string \<Rightarrow> string \<Rightarrow> FileInfo \<Rightarrow> RepositoryPool \<Rightarrow> log_entry list \<Rightarrow> bool" where
  "siva_scan_done env root path f p lg \<longleftrightarrow>
     (if IsDir f then
        (case ioutil_ReadDir env (filepath_Join path (Name f)) of
           Inl err \<Rightarrow> False
         | Inr gs \<Rightarrow>
             list_all (\<lambda>g. siva_entry_done root (filepath_Join path (Name f)) g p lg) gs)
      else siva_entry_done root path f p lg)"

text \<open>Every subdirectory among the entries \<open>fs\<close> of \<open>path\<close> can be read.\<close>

definition subdirs_readable :: "git_env \<Rightarrow> string \<Rightarrow> FileInfo list \<Rightarrow> bool" where
  "subdirs_readable env path fs \<longleftrightarrow>
     list_all (\<lambda>s. IsDir s \<longrightarrow> \<not> isl (ioutil_ReadDir env (filepath_Join path (Name s)))) fs"

text \<open>
  The joined paths of the files that a scan of \<open>path\<close> with entries \<open>fs\<close> hands to
  \<^verbatim>\<open>Add\<close>: \<open>i\<close> is the joined path of an entry of \<open>path\<close> that is no directory, or of an
  entry of one of its subdirectories, and the name of the entry ends in \<^verbatim>\<open>.siva\<close>.
\<close>

definition discovered :: "git_env \<Rightarrow> string \<Rightarrow> FileInfo list \<Rightarrow> string \<Rightarrow> bool" where
  "discovered env path fs i \<longleftrightarrow>
     (\<exists>f\<in>set fs.
        if IsDir f then
          (case ioutil_ReadDir env (filepath_Join path (Name f)) of
             Inl err \<Rightarrow> False
           | Inr gs \<Rightarrow> \<exists>g\<in>set gs. HasSuffix (Name g) ''.siva''
                        \<and> i = filepath_Join (filepath_Join path (Name f)) (Name g))
        else HasSuffix (Name f) ''.siva'' \<and> i = filepath_Join path (Name f))"

text \<open>
  A registration step never removes or replaces a backend and never removes a log
  entry: the order in which pool and log grow.
\<close>

definition grows ::
  "RepositoryPool \<Rightarrow> log_entry list \<Rightarrow> RepositoryPool \<Rightarrow> log_entry list \<Rightarrow> bool" where
  "grows p lg p' lg' \<longleftrightarrow>
     (\<forall>i b. fmlookup (repositories p) i = Some b \<longrightarrow> fmlookup (repositories p') i = Some b)
     \<and> set lg \<subseteq> set lg'"

text \<open>
  Handing the backends \<open>rs\<close> to \<^verbatim>\<open>Add\<close> one after the other, each on the pool the
  one before it left, whatever \<^verbatim>\<open>Add\<close> returns.
\<close>

definition register_each :: "repository list \<Rightarrow> RepositoryPool \<Rightarrow> RepositoryPool" where
  "register_each rs p = foldl (\<lambda>q r. snd (Add r q)) p rs"

text \<open>
  The backends of the entries \<open>dirs\<close> of \<open>path\<close> that are directories and open as git
  repositories, in the order of the entries: \<^verbatim>\<open>gitRepo(id, pa)\<close> with the joined path
  \<open>pa\<close> and the id that \<^verbatim>\<open>IDFromPath\<close> gives it.
\<close>

definition opened_dirs :: "git_env \<Rightarrow> int \<Rightarrow> string \<Rightarrow> FileInfo list \<Rightarrow> repository list" where
  "opened_dirs env prefix path dirs =
     map (\<lambda>f. gitRepo (IDFromPath env prefix (filepath_Join path (Name f)))
                 (filepath_Join path (Name f)))
       (filter (\<lambda>f. IsDir f \<and> \<not> isl (git_PlainOpen env (filepath_Join path (Name f)))) dirs)"

text \<open>
  The joined paths of the entries \<open>fs\<close> of \<open>path\<close> whose name ends in \<^verbatim>\<open>.siva\<close>, in the
  order of the entries; and the same over the root of a scan and the subdirectories
  directly below it, each subdirectory in the place of its entry.
\<close>

definition siva_names :: "string \<Rightarrow> FileInfo list \<Rightarrow> string list" where
  "siva_names path fs =
     map (\<lambda>f. filepath_Join path (Name f)) (filter (\<lambda>f. HasSuffix (Name f) ''.siva'') fs)"

definition siva_files :: "git_env \<Rightarrow> string \<Rightarrow> FileInfo list \<Rightarrow> string list" where
  "siva_files env path fs =
     concat (map (\<lambda>f. if IsDir f then
                         (case ioutil_ReadDir env (filepath_Join path (Name f)) of
                            Inl err \<Rightarrow> []
                          | Inr gs \<Rightarrow> siva_names (filepath_Join path (Name f)) gs)
                       else siva_names path [f]) fs)"

text \<open>
  A directory tree for examples: \<^verbatim>\<open>root\<close> holds the unreadable directory \<^verbatim>\<open>bad\<close>, the
  files \<^verbatim>\<open>r1.siva\<close> and \<^verbatim>\<open>notes.txt\<close> and the directory \<^verbatim>\<open>sub\<close>, which holds \<^verbatim>\<open>r2.siva\<close>;
  \<^verbatim>\<open>tree\<close> is the same without \<^verbatim>\<open>bad\<close>. In \<^verbatim>\<open>repos\<close>, the directories \<^verbatim>\<open>x\<close> and \<^verbatim>\<open>y\<close> and
  the file \<^verbatim>\<open>f\<close>; only \<^verbatim>\<open>repos/y\<close> opens as a git repository.
\<close>

definition regular :: "string \<Rightarrow> FileInfo" where
  "regular n = \<lparr>Name = n, IsDir = False\<rparr>"

definition directory :: "string \<Rightarrow> FileInfo" where
  "directory n = \<lparr>Name = n, IsDir = True\<rparr>"

definition env_tree :: git_env where
  "env_tree =
     \<lparr>git_PlainOpen =
        (\<lambda>p. if p = ''repos/y'' then Inr p else Inl (ExternalError ''repository does not exist'')),
      sivafs_Open = Inr,
      ioutil_ReadDir =
        (\<lambda>p. if p = ''root'' then
               Inr [directory ''bad'', regular ''r1.siva'', regular ''notes.txt'', directory ''sub'']
             else if p = ''tree'' then
               Inr [regular ''r1.siva'', regular ''notes.txt'', directory ''sub'']
             else if p = ''root/sub'' \<or> p = ''tree/sub'' then Inr [regular ''r2.siva'']
             else if p = ''repos'' then Inr [directory ''x'', regular ''f'', directory ''y'']
             else Inl (ExternalError ''permission denied'')),
      IDFromPath = (\<lambda>n p. p)\<rparr>"

text \<open>
  A pool in which the id \<^verbatim>\<open>repos/y\<close> is taken by an archive at another location.
\<close>

definition pool_taken :: RepositoryPool where
  "pool_taken =
     \<lparr>repositories = fmupd ''repos/y'' (sivaRepository ''repos/y'' ''/archive/y.siva'') fmempty,
      idOrder = [''repos/y'']\<rparr>"

section \<open>The cursor over the pool\<close>

text \<open>
  \<^verbatim>\<open>RepositoryIter\<close>: the position is an \<^verbatim>\<open>int32\<close>, read with \<^verbatim>\<open>int(...)\<close> and advanced
  with \<^verbatim>\<open>atomic.AddInt32\<close>, which wraps. A panic of \<^verbatim>\<open>GetPos\<close> leaves before the
  increment.
\<close>

record RepositoryIter =
  pos :: "32 word"
  pool :: RepositoryPool

definition RepoIter :: "RepositoryPool \<Rightarrow> RepositoryIter" where
  "RepoIter p = \<lparr>pos = 0, pool = p\<rparr>"

definition RepositoryIter_Next ::
  "git_env \<Rightarrow> RepositoryIter \<Rightarrow> Repository result \<times> RepositoryIter" where
  "RepositoryIter_Next env i =
     (case GetPos env (pool i) (sint (pos i)) of
        Panic m \<Rightarrow> (Panic m, i)
      | Err err \<Rightarrow> (Err err, i\<lparr>pos := pos i + 1\<rparr>)
      | Ok r \<Rightarrow> (Ok r, i\<lparr>pos := pos i + 1\<rparr>))"

section \<open>The composite row iterator\<close>

text \<open>
  The collaborators of \<^verbatim>\<open>rowRepoIter\<close>. A per-repository iterator is a value of type
  \<open>'it\<close>, its current state: \<open>iter_Next\<close> gives the result of its \<^verbatim>\<open>Next()\<close> and the state
  the call leaves it in. \<open>NewIterator\<close> is \<^verbatim>\<open>i.iter.NewIterator(repo)\<close> with both of its
  results, the iterator (\<open>None\<close> for \<^verbatim>\<open>nil\<close>) and the error. \<open>ctx_Done t\<close> tells whether
  the channel \<^verbatim>\<open>i.ctx.Done()\<close> is closed when it is polled for the \<open>t\<close>-th time.
\<close>

record ('it, 'row) iter_env =
  NewIterator :: "Repository \<Rightarrow> 'it option \<times> error option"
  iter_Next :: "'it \<Rightarrow> 'row result \<times> 'it"
  iter_Close :: "error option"
  ctx_Done :: "nat \<Rightarrow> bool"

record Session =
  Pool :: RepositoryPool
  SkipGitErrors :: bool

text \<open>The calls that the iterator makes to its collaborators, in order.\<close>

datatype 'it event =
    CallNewIterator Repository
  | CallNext 'it
  | CallClose 'it
  | CallIterClose

text \<open>
  \<^verbatim>\<open>rowRepoIter\<close>. The fields \<^verbatim>\<open>iter\<close> and \<^verbatim>\<open>ctx\<close> are the environment; \<open>polls\<close> counts
  the polls of \<^verbatim>\<open>ctx.Done()\<close> and \<open>trace\<close> records the calls. The mutex serialises the
  calls on one iterator, which are taken one after the other here.
\<close>

record 'it rowRepoIter =
  currRepoIter :: "'it option"
  repositoryIter :: RepositoryIter
  session :: Session
  polls :: nat
  trace :: "'it event list"

text \<open>
  \<^verbatim>\<open>NewRowRepoIter\<close>: the session of the context is \<open>None\<close> when it is not a gitbase
  session.
\<close>

definition NewRowRepoIter :: "Session option \<Rightarrow> 'it rowRepoIter result" where
  "NewRowRepoIter s =
     (case s of
        None \<Rightarrow> Err ErrInvalidGitbaseSession
      | Some s' \<Rightarrow>
          Ok \<lparr>currRepoIter = None, repositoryIter = RepoIter (Pool s'), session = s',
              polls = 0, trace = []\<rparr>)"

text \<open>
  How one pass through the body of the \<^verbatim>\<open>for\<close> loop of \<^verbatim>\<open>Next\<close> ends: with
  \<^verbatim>\<open>continue\<close> or with \<^verbatim>\<open>return\<close>. The block \<^verbatim>\<open>if i.currRepoIter == nil { ... }\<close> either
  ends the pass or falls through to the statements after it.
\<close>

datatype ('s, 'a) outcome = Continue 's | Return 'a 's

datatype ('s, 'a) block = Falls 's | Exits "('s, 'a) outcome"


definition acquire ::
  "git_env \<Rightarrow> ('it, 'row) iter_env \<Rightarrow> 'it rowRepoIter
     \<Rightarrow> ('it rowRepoIter, 'row result) block" where
  "acquire genv env i =
     (case currRepoIter i of
        Some it \<Rightarrow> Falls i
      | None \<Rightarrow>
          (case RepositoryIter_Next genv (repositoryIter i) of
             (r, ri) \<Rightarrow>
               let i1 = i\<lparr>repositoryIter := ri\<rparr> in
               (case r of
                  Panic m \<Rightarrow> Exits (Return (Panic m) i1)
                | Err err \<Rightarrow>
                    if err = EOF then Exits (Return (Err EOF) i1)
                    else if SkipGitErrors (session i1) then Exits (Continue i1)
                    else Exits (Return (Err err) i1)
                | Ok repo \<Rightarrow>
                    (case NewIterator env repo of
                       (cur, err) \<Rightarrow>
                         let i2 = i1\<lparr>currRepoIter := cur,
                                     trace := trace i1 @ [CallNewIterator repo]\<rparr> in
                         (case err of
                            Some e \<Rightarrow>
                              if SkipGitErrors (session i2) then Exits (Continue i2)
                              else Exits (Return (Err e) i2)
                          | None \<Rightarrow> Falls i2)))))"

text \<open>
  The statements after the block: \<^verbatim>\<open>i.currRepoIter.Next()\<close>, which panics on a \<^verbatim>\<open>nil\<close>
  iterator, and the handling of its error.
\<close>

definition advance ::
  "('it, 'row) iter_env \<Rightarrow> 'it rowRepoIter \<Rightarrow> ('it rowRepoIter, 'row result) outcome" where
  "advance env i =
     (case currRepoIter i of
        None \<Rightarrow> Return (Panic ''nil pointer dereference'') i
      | Some it \<Rightarrow>
          (case iter_Next env it of
             (r, it') \<Rightarrow>
               let i1 = i\<lparr>currRepoIter := Some it', trace := trace i @ [CallNext it]\<rparr> in
               (case r of
                  Panic m \<Rightarrow> Return (Panic m) i1
                | Err err \<Rightarrow>
                    if err = EOF then
                      Continue (i1\<lparr>currRepoIter := None,
                                   trace := trace i1 @ [CallClose it']\<rparr>)
                    else if SkipGitErrors (session i1) then Continue i1
                    else Return (Err err) i1
                | Ok row \<Rightarrow> Return (Ok row) i1)))"

definition Next_body ::
  "git_env \<Rightarrow> ('it, 'row) iter_env \<Rightarrow> 'it rowRepoIter
     \<Rightarrow> ('it rowRepoIter, 'row result) outcome" where
  "Next_body genv env i =
     (let i0 = i\<lparr>polls := Suc (polls i)\<rparr> in
      if ctx_Done env (polls i) then Return (Err ErrSessionCanceled) i0
      else
        (case acquire genv env i0 of
           Exits out \<Rightarrow> out
         | Falls i1 \<Rightarrow> advance env i1))"

text \<open>
  \<^verbatim>\<open>rowRepoIter.Next\<close>: the loop runs until a pass returns, and may run forever; \<open>None\<close>
  is the call that does not return.
\<close>

partial_function (option) rowRepoIter_Next ::
  "git_env \<Rightarrow> ('it, 'row) iter_env \<Rightarrow> 'it rowRepoIter
     \<Rightarrow> ('row result \<times> 'it rowRepoIter) option" where
  "rowRepoIter_Next genv env i =
     (case Next_body genv env i of
        Continue i' \<Rightarrow> rowRepoIter_Next genv env i'
      | Return r i' \<Rightarrow> Some (r, i'))"

declare rowRepoIter_Next.simps [code]

text \<open>
  \<^verbatim>\<open>rowRepoIter.Close\<close>: closes the active iterator, if any, and returns what closing the
  shared iterator returns.
\<close>

definition rowRepoIter_Close ::
  "('it, 'row) iter_env \<Rightarrow> 'it rowRepoIter \<Rightarrow> error option \<times> 'it rowRepoIter" where
  "rowRepoIter_Close env i =
     (let i1 = (case currRepoIter i of
                  Some it \<Rightarrow> i\<lparr>trace := trace i @ [CallClose it]\<rparr>
                | None \<Rightarrow> i)
      in (iter_Close env, i1\<lparr>trace := trace i1 @ [CallIterClose]\<rparr>))"

text \<open>
  A caller that calls \<^verbatim>\<open>Next\<close> \<open>n\<close> times: the results in order and the iterator after the
  last call.
\<close>

fun Next_times ::
  "nat \<Rightarrow> git_env \<Rightarrow> ('it, 'row) iter_env \<Rightarrow> 'it rowRepoIter
     \<Rightarrow> ('row result list \<times> 'it rowRepoIter) option" where
  "Next_times 0 genv env i = Some ([], i)"
| "Next_times (Suc n) genv env i =
     (case rowRepoIter_Next genv env i of
        None \<Rightarrow> None
      | Some (r, i') \<Rightarrow>
          (case Next_times n genv env i' of
             None \<Rightarrow> None
           | Some (rs, i'') \<Rightarrow> Some (r # rs, i'')))"

text \<open>
  The per-repository iterator \<open>it\<close> gives the rows \<open>rs\<close> and then \<^verbatim>\<open>io.EOF\<close>.
\<close>

fun yields :: "('it, 'row) iter_env \<Rightarrow> 'it \<Rightarrow> 'row list \<Rightarrow> bool" where
  "yields env it [] = (fst (iter_Next env it) = Err EOF)"
| "yields env it (r # rs) =
     (case iter_Next env it of
        (Ok r', it') \<Rightarrow> r' = r \<and> yields env it' rs
      | (Err err, it') \<Rightarrow> False
      | (Panic m, it') \<Rightarrow> False)"

text \<open>
  The backend \<open>b\<close> opens, an iterator is created for it without error, and that
  iterator gives the rows \<open>rs\<close>.
\<close>

definition repo_yields ::
  "git_env \<Rightarrow> ('it, 'row) iter_env \<Rightarrow> repository \<Rightarrow> 'row list \<Rightarrow> bool" where
  "repo_yields genv env b rs =
     (case repository_Repo genv b of
        Ok repo \<Rightarrow>
          (case NewIterator env repo of
             (Some it, None) \<Rightarrow> yields env it rs
           | (Some it, Some e) \<Rightarrow> False
           | (None, e) \<Rightarrow> False)
      | Err err \<Rightarrow> False
      | Panic m \<Rightarrow> False)"

text \<open>
  The backend \<open>b\<close> fails to open with an error that is not \<^verbatim>\<open>io.EOF\<close>, or it opens and
  no iterator is created for it: \<^verbatim>\<open>NewIterator\<close> returns \<^verbatim>\<open>nil\<close> and an error.
\<close>

definition repo_fails :: "git_env \<Rightarrow> ('it, 'row) iter_env \<Rightarrow> repository \<Rightarrow> bool" where
  "repo_fails genv env b =
     (case repository_Repo genv b of
        Ok repo \<Rightarrow>
          (case NewIterator env repo of
             (None, Some e) \<Rightarrow> True
           | (None, None) \<Rightarrow> False
           | (Some it, e) \<Rightarrow> False)
      | Err err \<Rightarrow> err \<noteq> EOF
      | Panic m \<Rightarrow> False)"

text \<open>
  What the backend \<open>b\<close> contributes to the stream: its rows, or nothing when it fails
  and errors are skipped.
\<close>

definition contributes ::
  "git_env \<Rightarrow> ('it, 'row) iter_env \<Rightarrow> bool \<Rightarrow> repository \<Rightarrow> 'row list \<Rightarrow> bool" where
  "contributes genv env skip b rs \<longleftrightarrow>
     repo_yields genv env b rs \<or> (skip \<and> repo_fails genv env b \<and> rs = [])"

definition opens :: "git_env \<Rightarrow> repository \<Rightarrow> bool" where
  "opens genv b = (case repository_Repo genv b of Ok repo \<Rightarrow> True | Err err \<Rightarrow> False
                   | Panic m \<Rightarrow> False)"

text \<open>The ids of the repositories for which \<^verbatim>\<open>NewIterator\<close> was called, in order.\<close>

fun created :: "'it event list \<Rightarrow> string list" where
  "created [] = []"
| "created (CallNewIterator repo # es) = ID repo # created es"
| "created (e # es) = created es"

text \<open>The iterators on which \<^verbatim>\<open>Close\<close> was called, in order.\<close>

fun closed :: "'it event list \<Rightarrow> 'it list" where
  "closed [] = []"
| "closed (CallClose it # es) = it # closed es"
| "closed (e # es) = closed es"

text \<open>
  The invariants of an iteration. The pool \<open>p\<close> is well formed, holds the backends
  \<open>bs\<close> in this order, none under the empty id, and fewer of them than an \<^verbatim>\<open>int32\<close>
  can count. The iterator \<open>i\<close> reads \<open>p\<close> with its cursor at position \<open>k\<close>.
\<close>

definition good_pool :: "RepositoryPool \<Rightarrow> repository list \<Rightarrow> bool" where
  "good_pool p bs \<longleftrightarrow>
     pool_inv p \<and> backends p = map Some bs \<and> [] \<notin> set (idOrder p) \<and> length bs < 2 ^ 31"

definition at_position :: "RepositoryPool \<Rightarrow> bool \<Rightarrow> nat \<Rightarrow> 'it rowRepoIter \<Rightarrow> bool" where
  "at_position p skip k i \<longleftrightarrow>
     pool (repositoryIter i) = p \<and> pos (repositoryIter i) = of_nat k
     \<and> SkipGitErrors (session i) = skip"

text \<open>
  The caller of \<open>i\<close> receives the rows \<open>out\<close> and then \<^verbatim>\<open>io.EOF\<close>, and meanwhile
  \<^verbatim>\<open>NewIterator\<close> is called for the repositories \<open>ids\<close>.
\<close>

definition streams ::
  "git_env \<Rightarrow> ('it, 'row) iter_env \<Rightarrow> 'it rowRepoIter \<Rightarrow> 'row list \<Rightarrow> string list \<Rightarrow> bool" where
  "streams genv env i out ids \<longleftrightarrow>
     (\<exists>i'. Next_times (Suc (length out)) genv env i = Some (map Ok out @ [Err EOF], i')
           \<and> created (trace i') = created (trace i) @ ids)"

text \<open>
  Collaborators for examples. A per-repository iterator is the list of the results it
  still has to give, and gives \<^verbatim>\<open>io.EOF\<close> once the list is empty. The repository at
  \<^verbatim>\<open>/a\<close> has the rows 1 and 2, the one at \<^verbatim>\<open>/b\<close> the row 3; the iterator of the one at
  \<^verbatim>\<open>/c\<close> fails once and then has the row 7; no iterator is created for any other
  repository. The context is never cancelled in \<open>env_rows\<close> and always cancelled in
  \<open>env_cancelled\<close>.
\<close>

definition script_Next :: "nat result list \<Rightarrow> nat result \<times> nat result list" where
  "script_Next it = (case it of [] \<Rightarrow> (Err EOF, []) | r # rest \<Rightarrow> (r, rest))"

definition env_rows :: "(nat result list, nat) iter_env" where
  "env_rows =
     \<lparr>NewIterator =
        (\<lambda>repo. if Repo repo = ''/a'' then (Some [Ok 1, Ok 2], None)
                else if Repo repo = ''/b'' then (Some [Ok 3], None)
                else if Repo repo = ''/c'' then
                  (Some [Err (ExternalError ''object not found''), Ok 7], None)
                else (None, Some (ExternalError ''no iterator''))),
      iter_Next = script_Next,
      iter_Close = None,
      ctx_Done = (\<lambda>t. False)\<rparr>"

definition env_cancelled :: "(nat result list, nat) iter_env" where
  "env_cancelled = env_rows\<lparr>ctx_Done := (\<lambda>t. True)\<rparr>"

text \<open>
  An environment in which the location \<^verbatim>\<open>/broken\<close> does not open and the location
  \<^verbatim>\<open>/truncated\<close> fails to open with \<^verbatim>\<open>io.EOF\<close>.
\<close>

definition env_broken :: git_env where
  "env_broken =
     \<lparr>git_PlainOpen =
        (\<lambda>p. if p = ''/broken'' then Inl (ExternalError ''repository does not exist'')
             else if p = ''/truncated'' then Inl EOF
             else Inr p),
      sivafs_Open = Inr,
      ioutil_ReadDir = (\<lambda>p. Inl (ExternalError ''no such directory'')),
      IDFromPath = (\<lambda>n p. p)\<rparr>"

definition pool_of :: "repository list \<Rightarrow> RepositoryPool" where
  "pool_of bs = (case Add_list bs NewRepositoryPool of Some p \<Rightarrow> p | None \<Rightarrow> NewRepositoryPool)"

definition driver_of :: "bool \<Rightarrow> repository list \<Rightarrow> nat result list rowRepoIter" where
  "driver_of skip bs =
     \<lparr>currRepoIter = None, repositoryIter = RepoIter (pool_of bs),
      session = \<lparr>Pool = pool_of bs, SkipGitErrors = skip\<rparr>, polls = 0, trace = []\<rparr>"

section \<open>Properties of the pool\<close>

lemma fcard_fset_of_list_distinct: "distinct xs \<Longrightarrow> fcard (fset_of_list xs) = length xs"
  by (induction xs) (simp_all add: fcard_finsert_if fset_of_list_elem)

lemma pool_inv_size: "pool_inv p \<Longrightarrow> fcard (fmdom (repositories p)) = length (idOrder p)"
  by (simp add: pool_inv_def fcard_fset_of_list_distinct)

lemma pool_inv_empty: "pool_inv NewRepositoryPool"
  by (simp add: pool_inv_def NewRepositoryPool_def)

lemma pool_inv_lookup_None:
  "pool_inv p \<Longrightarrow> fmlookup (repositories p) i = None \<longleftrightarrow> i \<notin> set (idOrder p)"
  by (metis pool_inv_def fmdom_notI fmdom_notD fset_of_list_elem)

lemma Add_ok:
  assumes "Add r p = (None, p')"
  shows "fmlookup (repositories p) (repository_ID r) = None"
    and "idOrder p' = idOrder p @ [repository_ID r]"
    and "repositories p' = fmupd (repository_ID r) r (repositories p)"
  using assms by (auto simp: Add_def Let_def split: option.splits)

lemma pool_inv_Add:
  assumes "pool_inv p" and "Add r p = (None, p')"
  shows "pool_inv p'"
proof -
  note ok = Add_ok [OF assms(2)]
  from assms(1) ok(1) have fresh: "repository_ID r \<notin> set (idOrder p)"
    by (simp add: pool_inv_lookup_None)
  have old: "list_all (\<lambda>i. case fmlookup (repositories p') i of
                      None \<Rightarrow> False | Some q \<Rightarrow> repository_ID q = i) (idOrder p)"
    using assms(1) fresh unfolding pool_inv_def list_all_iff ok(3)
    by (auto split: option.splits)
  show ?thesis
    using assms(1) fresh old unfolding pool_inv_def
    by (simp add: ok(2) ok(3))
qed

lemma Add_backends:
  assumes "pool_inv p" and "Add r p = (None, p')"
  shows "backends p' = backends p @ [Some r]"
proof -
  note ok = Add_ok [OF assms(2)]
  from assms(1) ok(1) have fresh: "repository_ID r \<notin> set (idOrder p)"
    by (simp add: pool_inv_lookup_None)
  then have "map (fmlookup (fmupd (repository_ID r) r (repositories p))) (idOrder p)
               = map (fmlookup (repositories p)) (idOrder p)"
    by (intro map_cong) auto
  then show ?thesis
    by (simp add: backends_def ok(2) ok(3))
qed

lemma Add_list_inv:
  "pool_inv p \<Longrightarrow> Add_list rs p = Some p' \<Longrightarrow>
     pool_inv p' \<and> backends p' = backends p @ map Some rs
       \<and> idOrder p' = idOrder p @ map repository_ID rs"
proof (induction rs arbitrary: p)
  case Nil
  then show ?case by simp
next
  case (Cons r rs)
  from Cons.prems(2) obtain q where q: "Add r p = (None, q)" and rest: "Add_list rs q = Some p'"
    by (auto split: prod.splits option.splits)
  from Cons.prems(1) q have "pool_inv q" by (rule pool_inv_Add)
  from Cons.IH [OF this rest] show ?case
    using Add_backends [OF Cons.prems(1) q] Add_ok(2) [OF q] by simp
qed

lemma GetPos_in_range:
  assumes "pool_inv p" and "n < length (idOrder p)" and "idOrder p ! n \<noteq> []"
  shows "GetPos env p (int n) =
           (case backends p ! n of None \<Rightarrow> Err (ErrPoolRepoNotFound (idOrder p ! n))
                                 | Some r \<Rightarrow> repository_Repo env r)"
  using assms by (simp add: GetPos_def pool_inv_size GetRepo_def backends_def Let_def)

lemma GetPos_at_end:
  assumes "pool_inv p"
  shows "GetPos env p (int (length (idOrder p))) = Err EOF"
  using assms by (simp add: GetPos_def pool_inv_size)

text \<open>
  C5. \<^verbatim>\<open>Add\<close> on a backend whose id is already in the map returns
  \<^verbatim>\<open>errRepoAlreadyRegistered\<close> carrying the path of the backend stored under that id, and
  returns the pool exactly as it was (map and order). When the id is not in the map, it
  returns no error and the pool with the id appended to the order and the backend stored
  under the id; these two are the only outcomes.
\<close>

theorem Add_duplicate_or_fresh:
  "(\<forall>r0. fmlookup (repositories p) (repository_ID r) = Some r0 \<longrightarrow>
       Add r p = (Some (ErrRepoAlreadyRegistered (repository_Path r0)), p))
   \<and> (fmlookup (repositories p) (repository_ID r) = None \<longrightarrow>
       Add r p = (None, \<lparr>repositories = fmupd (repository_ID r) r (repositories p),
                         idOrder = idOrder p @ [repository_ID r]\<rparr>))"
  by (simp add: Add_def Let_def)

theorem Add_duplicate_or_fresh_witness:
  "Add (gitRepo ''a'' ''/x'') NewRepositoryPool =
     (None, \<lparr>repositories = fmupd ''a'' (gitRepository ''a'' ''/x'') fmempty, idOrder = [''a'']\<rparr>)
   \<and> Add (sivaRepo ''a'' ''/y'')
        \<lparr>repositories = fmupd ''a'' (gitRepository ''a'' ''/x'') fmempty, idOrder = [''a'']\<rparr> =
     (Some (ErrRepoAlreadyRegistered ''/x''),
        \<lparr>repositories = fmupd ''a'' (gitRepository ''a'' ''/x'') fmempty, idOrder = [''a'']\<rparr>)"
  using Add_duplicate_or_fresh [of NewRepositoryPool "gitRepo ''a'' ''/x''"]
    Add_duplicate_or_fresh [of
      "\<lparr>repositories = fmupd ''a'' (gitRepository ''a'' ''/x'') fmempty, idOrder = [''a'']\<rparr>"
      "sivaRepo ''a'' ''/y''"]
  by (simp add: NewRepositoryPool_def gitRepo_def sivaRepo_def)

text \<open>
  C6, as the code has it. After registrations \<open>rs\<close> that all succeed on an empty pool,
  with no empty id among them, \<^verbatim>\<open>GetPos\<close> at each position \<open>n\<close> below \<open>length rs\<close> returns
  what opening the \<open>n\<close>-th registered backend returns, and \<^verbatim>\<open>GetPos\<close> at \<open>length rs\<close>
  returns \<^verbatim>\<open>io.EOF\<close>.
\<close>

theorem GetPos_registration_order:
  assumes "Add_list rs NewRepositoryPool = Some p"
    and "[] \<notin> set (map repository_ID rs)"
  shows "(\<forall>n < length rs. GetPos env p (int n) = repository_Repo env (rs ! n))
         \<and> GetPos env p (int (length rs)) = Err EOF"
proof -
  have start: "backends NewRepositoryPool = []" "idOrder NewRepositoryPool = []"
    by (simp_all add: backends_def NewRepositoryPool_def)
  note built = Add_list_inv [OF pool_inv_empty assms(1), unfolded start append_Nil]
  from built have inv: "pool_inv p" by (rule conjunct1)
  from built have bs: "backends p = map Some rs" by blast
  from built have ids: "idOrder p = map repository_ID rs" by blast
  have "GetPos env p (int n) = repository_Repo env (rs ! n)" if "n < length rs" for n
  proof -
    from that assms(2) ids have "idOrder p ! n \<noteq> []"
      by (metis length_map nth_mem)
    with inv that ids bs show ?thesis
      by (simp add: GetPos_in_range)
  qed
  moreover have "GetPos env p (int (length rs)) = Err EOF"
    using GetPos_at_end [OF inv, of env] ids by simp
  ultimately show ?thesis by blast
qed

theorem GetPos_registration_order_witness:
  "GetPos env_ok \<lparr>repositories = fmupd ''b'' (sivaRepository ''b'' ''/y'')
                      (fmupd ''a'' (gitRepository ''a'' ''/x'') fmempty),
                    idOrder = [''a'', ''b'']\<rparr> 1
     = Ok \<lparr>ID = ''b'', Repo = ''/y''\<rparr>
   \<and> GetPos env_ok \<lparr>repositories = fmupd ''b'' (sivaRepository ''b'' ''/y'')
                      (fmupd ''a'' (gitRepository ''a'' ''/x'') fmempty),
                    idOrder = [''a'', ''b'']\<rparr> 2 = Err EOF"
proof -
  let ?rs = "[gitRepo ''a'' ''/x'', sivaRepo ''b'' ''/y'']"
  let ?p = "\<lparr>repositories = fmupd ''b'' (sivaRepository ''b'' ''/y'')
                      (fmupd ''a'' (gitRepository ''a'' ''/x'') fmempty),
             idOrder = [''a'', ''b'']\<rparr>"
  have built: "Add_list ?rs NewRepositoryPool = Some ?p"
    by (simp add: Add_def Let_def NewRepositoryPool_def gitRepo_def sivaRepo_def)
  have ids: "[] \<notin> set (map repository_ID ?rs)"
    by (simp add: gitRepo_def sivaRepo_def)
  from GetPos_registration_order [OF built ids, of env_ok] show ?thesis
    by (simp add: All_less_Suc gitRepo_def sivaRepo_def NewSivaRepositoryFromPath_def
        NewRepository_def env_ok_def)
qed

theorem GetPos_empty_id_counterexample:
  "Add_list [gitRepo '''' ''/x''] NewRepositoryPool
     = Some \<lparr>repositories = fmupd '''' (gitRepository '''' ''/x'') fmempty, idOrder = ['''']\<rparr>
   \<and> repository_Repo env_ok (gitRepo '''' ''/x'') = Ok \<lparr>ID = '''', Repo = ''/x''\<rparr>
   \<and> GetPos env_ok \<lparr>repositories = fmupd '''' (gitRepository '''' ''/x'') fmempty,
                     idOrder = ['''']\<rparr> 0 = Err EOF"
  by (simp add: Add_def Let_def NewRepositoryPool_def gitRepo_def GetPos_def
      NewRepositoryFromPath_def NewRepository_def env_ok_def)
section \<open>Properties of bulk registration\<close>

lemma Add_dom:
  "fmdom (repositories (snd (Add r p))) = finsert (repository_ID r) (fmdom (repositories p))"
  by (auto simp: Add_def Let_def fmdomI split: option.splits)

lemma Add_lookup_old:
  "fmlookup (repositories p) j = Some b \<Longrightarrow> fmlookup (repositories (snd (Add r p))) j = Some b"
  by (auto simp: Add_def Let_def split: option.splits)

lemma Add_lookup_new:
  "fmlookup (repositories (snd (Add r p))) j = Some b \<Longrightarrow> fmlookup (repositories p) j = None
     \<Longrightarrow> j = repository_ID r \<and> b = r"
  by (auto simp: Add_def Let_def split: option.splits if_splits)

lemma grows_dom:
  "grows p lg p' lg' \<Longrightarrow> i |\<in>| fmdom (repositories p) \<Longrightarrow> i |\<in>| fmdom (repositories p')"
  by (metis grows_def fmdomE fmdomI)

lemma grows_log: "grows p lg p' lg' \<Longrightarrow> x \<in> set lg \<Longrightarrow> x \<in> set lg'"
  by (auto simp: grows_def)

lemma grows_lookup:
  "grows p lg p' lg' \<Longrightarrow> fmlookup (repositories p) i = Some b
     \<Longrightarrow> fmlookup (repositories p') i = Some b"
  by (simp add: grows_def)


lemma grows_refl: "grows p lg p lg"
  by (simp add: grows_def)

lemma grows_trans: "grows p lg p' lg' \<Longrightarrow> grows p' lg' p'' lg'' \<Longrightarrow> grows p lg p'' lg''"
  by (auto simp: grows_def)

lemma siva_entry_done_grows:
  "siva_entry_done root path f p lg \<Longrightarrow> grows p lg p' lg' \<Longrightarrow> siva_entry_done root path f p' lg'"
  by (auto simp: siva_entry_done_def grows_dom grows_log split: if_splits)

lemma git_entry_done_grows:
  "git_entry_done env prefix path f p lg \<Longrightarrow> grows p lg p' lg' \<Longrightarrow> git_entry_done env prefix path f p' lg'"
  by (auto simp: git_entry_done_def grows_dom grows_log Let_def split: sum.splits)

lemma addSivaFile_grows:
  "addSivaFile root path f p lg = (p', lg') \<Longrightarrow> grows p lg p' lg'"
  by (auto simp: addSivaFile_def grows_def Let_def Add_lookup_old split: if_splits)

lemma addSivaFile_done:
  "addSivaFile root path f p lg = (p', lg') \<Longrightarrow> siva_entry_done root path f p' lg'"
  by (auto simp: addSivaFile_def siva_entry_done_def Let_def Add_dom sivaRepo_def split: if_splits)

lemma addSivaDir_loop_flat:
  "addSivaDir_loop env root path False fs p lg = (e, p', lg') \<Longrightarrow>
     e = None \<and> grows p lg p' lg' \<and> (\<forall>f\<in>set fs. siva_entry_done root path f p' lg')"
proof (induction fs arbitrary: p lg)
  case Nil
  then show ?case by (simp add: grows_refl)
next
  case (Cons f fs)
  obtain p1 lg1 where one: "addSivaFile root path f p lg = (p1, lg1)"
    by (cases "addSivaFile root path f p lg")
  with Cons.prems have rest: "addSivaDir_loop env root path False fs p1 lg1 = (e, p', lg')"
    by simp
  note ih = Cons.IH [OF rest]
  from ih have g: "grows p1 lg1 p' lg'" by blast
  have "siva_entry_done root path f p' lg'"
    using addSivaFile_done [OF one] g by (rule siva_entry_done_grows)
  moreover have "grows p lg p' lg'"
    using addSivaFile_grows [OF one] g by (rule grows_trans)
  ultimately show ?case using ih by simp
qed

lemma addSivaDir_flat:
  assumes "addSivaDir env root path False p lg = (e, p', lg')"
  shows "grows p lg p' lg'"
    and "\<And>err. ioutil_ReadDir env path = Inl err \<Longrightarrow> e = Some err \<and> p' = p \<and> lg' = lg"
    and "\<And>fs. ioutil_ReadDir env path = Inr fs \<Longrightarrow>
           e = None \<and> (\<forall>f\<in>set fs. siva_entry_done root path f p' lg')"
  using assms addSivaDir_loop_flat [of env root path _ p lg e p' lg']
  by (auto simp: grows_refl split: sum.splits)


lemma addSivaFile_new:
  assumes "addSivaFile root path f p lg = (p', lg')"
    and "fmlookup (repositories p') i = Some r" and "fmlookup (repositories p) i = None"
  shows "HasSuffix (Name f) ''.siva'' \<and> i = filepath_Join path (Name f) \<and> r = sivaRepository i i"
  using assms Add_lookup_new [of "sivaRepo (filepath_Join path (Name f)) (filepath_Join path (Name f))" p i r]
  by (auto simp: addSivaFile_def Let_def sivaRepo_def split: if_splits)

lemma addSivaDir_loop_flat_new:
  "addSivaDir_loop env root path False fs p lg = (e, p', lg') \<Longrightarrow>
   fmlookup (repositories p') i = Some r \<Longrightarrow> fmlookup (repositories p) i = None \<Longrightarrow>
     \<exists>f\<in>set fs. HasSuffix (Name f) ''.siva'' \<and> i = filepath_Join path (Name f) \<and> r = sivaRepository i i"
proof (induction fs arbitrary: p lg)
  case Nil
  then show ?case by simp
next
  case (Cons f fs)
  obtain p1 lg1 where one: "addSivaFile root path f p lg = (p1, lg1)"
    by (cases "addSivaFile root path f p lg")
  with Cons.prems(1) have rest: "addSivaDir_loop env root path False fs p1 lg1 = (e, p', lg')"
    by simp
  show ?case
  proof (cases "fmlookup (repositories p1) i")
    case None
    from Cons.IH [OF rest Cons.prems(2) None] show ?thesis by auto
  next
    case (Some r1)
    from addSivaDir_loop_flat [OF rest] have "grows p1 lg1 p' lg'" by blast
    from grows_lookup [OF this Some] Cons.prems(2) have "r1 = r" by simp
    with addSivaFile_new [OF one _ Cons.prems(3), of r1] Some show ?thesis by auto
  qed
qed

lemma addSivaDir_flat_new:
  assumes "addSivaDir env root path False p lg = (e, p', lg')"
    and "fmlookup (repositories p') i = Some r" and "fmlookup (repositories p) i = None"
  shows "\<exists>fs. ioutil_ReadDir env path = Inr fs \<and>
           (\<exists>f\<in>set fs. HasSuffix (Name f) ''.siva'' \<and> i = filepath_Join path (Name f)
               \<and> r = sivaRepository i i)"
  using assms addSivaDir_loop_flat_new [of env root path _ p lg e p' lg' i r]
  by (auto split: sum.splits)

lemma addSivaDir_loop_rec_grows:
  "addSivaDir_loop env root path True fs p lg = (e, p', lg') \<Longrightarrow> grows p lg p' lg'"
proof (induction fs arbitrary: p lg)
  case Nil
  then show ?case by (simp add: grows_refl)
next
  case (Cons f fs)
  show ?case
  proof (cases "IsDir f")
    case True
    obtain e1 p1 lg1
      where sub: "addSivaDir env root (filepath_Join path (Name f)) False p lg = (e1, p1, lg1)"
      by (cases "addSivaDir env root (filepath_Join path (Name f)) False p lg") auto
    note g1 = addSivaDir_flat(1) [OF sub]
    show ?thesis
    proof (cases e1)
      case None
      with Cons.prems True sub have "addSivaDir_loop env root path True fs p1 lg1 = (e, p', lg')"
        by simp
      from g1 Cons.IH [OF this] show ?thesis by (rule grows_trans)
    next
      case (Some err)
      with Cons.prems True sub have "p' = p1" "lg' = lg1" by simp_all
      with g1 show ?thesis by simp
    qed
  next
    case False
    obtain p1 lg1 where one: "addSivaFile root path f p lg = (p1, lg1)"
      by (cases "addSivaFile root path f p lg")
    with Cons.prems False have "addSivaDir_loop env root path True fs p1 lg1 = (e, p', lg')"
      by simp
    from addSivaFile_grows [OF one] Cons.IH [OF this] show ?thesis by (rule grows_trans)
  qed
qed

lemma siva_scan_done_grows:
  "siva_scan_done env root path f p lg \<Longrightarrow> grows p lg p' lg' \<Longrightarrow> siva_scan_done env root path f p' lg'"
  by (auto simp: siva_scan_done_def list_all_iff siva_entry_done_grows split: if_splits sum.splits)

lemma addSivaDir_loop_rec_ok:
  "subdirs_readable env path fs \<Longrightarrow>
   addSivaDir_loop env root path True fs p lg = (e, p', lg') \<Longrightarrow>
     e = None \<and> list_all (\<lambda>f. siva_scan_done env root path f p' lg') fs"
proof (induction fs arbitrary: p lg)
  case Nil
  then show ?case by simp
next
  case (Cons f fs)
  from Cons.prems(1) have rd: "subdirs_readable env path fs"
    by (simp add: subdirs_readable_def)
  show ?case
  proof (cases "IsDir f")
    case True
    with Cons.prems(1) obtain gs where gs: "ioutil_ReadDir env (filepath_Join path (Name f)) = Inr gs"
      by (cases "ioutil_ReadDir env (filepath_Join path (Name f))")
        (auto simp: subdirs_readable_def)
    obtain e1 p1 lg1
      where sub: "addSivaDir env root (filepath_Join path (Name f)) False p lg = (e1, p1, lg1)"
      by (cases "addSivaDir env root (filepath_Join path (Name f)) False p lg") auto
    from addSivaDir_flat(3) [OF sub gs]
    have e1: "e1 = None" and d1: "\<forall>g\<in>set gs. siva_entry_done root (filepath_Join path (Name f)) g p1 lg1"
      by blast+
    from Cons.prems(2) True sub e1 have rest: "addSivaDir_loop env root path True fs p1 lg1 = (e, p', lg')"
      by simp
    from d1 gs True have "siva_scan_done env root path f p1 lg1"
      by (simp add: siva_scan_done_def list_all_iff)
    then have "siva_scan_done env root path f p' lg'"
      using addSivaDir_loop_rec_grows [OF rest] by (rule siva_scan_done_grows)
    with Cons.IH [OF rd rest] show ?thesis by simp
  next
    case False
    obtain p1 lg1 where one: "addSivaFile root path f p lg = (p1, lg1)"
      by (cases "addSivaFile root path f p lg")
    with Cons.prems(2) False have rest: "addSivaDir_loop env root path True fs p1 lg1 = (e, p', lg')"
      by simp
    from addSivaFile_done [OF one] False have "siva_scan_done env root path f p1 lg1"
      by (simp add: siva_scan_done_def)
    then have "siva_scan_done env root path f p' lg'"
      using addSivaDir_loop_rec_grows [OF rest] by (rule siva_scan_done_grows)
    with Cons.IH [OF rd rest] show ?thesis by simp
  qed
qed

lemma addSivaDir_loop_rec_abort:
  "subdirs_readable env path pre \<Longrightarrow>
   IsDir s \<Longrightarrow> ioutil_ReadDir env (filepath_Join path (Name s)) = Inl err \<Longrightarrow>
     addSivaDir_loop env root path True (pre @ s # post) p lg =
       (Some err, snd (addSivaDir_loop env root path True pre p lg))"
proof (induction pre arbitrary: p lg)
  case Nil
  then show ?case by simp
next
  case (Cons f pre)
  from Cons.prems(1) have rd: "subdirs_readable env path pre"
    by (simp add: subdirs_readable_def)
  note ih = Cons.IH [OF rd Cons.prems(2,3)]
  show ?case
  proof (cases "IsDir f")
    case True
    with Cons.prems(1) obtain gs where gs: "ioutil_ReadDir env (filepath_Join path (Name f)) = Inr gs"
      by (cases "ioutil_ReadDir env (filepath_Join path (Name f))")
        (auto simp: subdirs_readable_def)
    obtain e1 p1 lg1
      where sub: "addSivaDir env root (filepath_Join path (Name f)) False p lg = (e1, p1, lg1)"
      by (cases "addSivaDir env root (filepath_Join path (Name f)) False p lg") auto
    from addSivaDir_flat(3) [OF sub gs] have e1: "e1 = None" by blast
    from True sub e1 ih [of p1 lg1] show ?thesis by simp
  next
    case False
    obtain p1 lg1 where one: "addSivaFile root path f p lg = (p1, lg1)"
      by (cases "addSivaFile root path f p lg")
    with False ih [of p1 lg1] show ?thesis by simp
  qed
qed

lemma discovered_Cons: "discovered env path fs i \<Longrightarrow> discovered env path (f # fs) i"
  by (auto simp: discovered_def)

lemma addSivaDir_loop_rec_new:
  "addSivaDir_loop env root path True fs p lg = (e, p', lg') \<Longrightarrow>
   fmlookup (repositories p') i = Some r \<Longrightarrow> fmlookup (repositories p) i = None \<Longrightarrow>
     r = sivaRepository i i \<and> discovered env path fs i"
proof (induction fs arbitrary: p lg)
  case Nil
  then show ?case by simp
next
  case (Cons f fs)
  show ?case
  proof (cases "IsDir f")
    case True
    obtain e1 p1 lg1
      where sub: "addSivaDir env root (filepath_Join path (Name f)) False p lg = (e1, p1, lg1)"
      by (cases "addSivaDir env root (filepath_Join path (Name f)) False p lg") auto
    show ?thesis
    proof (cases "fmlookup (repositories p1) i")
      case None
      have "e1 = None"
      proof (rule ccontr)
        assume "e1 \<noteq> None"
        with Cons.prems(1) True sub have "p' = p1" by auto
        with None Cons.prems(2) show False by simp
      qed
      with Cons.prems(1) True sub have rest: "addSivaDir_loop env root path True fs p1 lg1 = (e, p', lg')"
        by simp
      from Cons.IH [OF rest Cons.prems(2) None] show ?thesis
        by (simp add: discovered_Cons)
    next
      case (Some r1)
      have "grows p1 lg1 p' lg'"
      proof (cases e1)
        case None
        with Cons.prems(1) True sub have "addSivaDir_loop env root path True fs p1 lg1 = (e, p', lg')"
          by simp
        then show ?thesis by (rule addSivaDir_loop_rec_grows)
      next
        case (Some err)
        with Cons.prems(1) True sub show ?thesis by (simp add: grows_refl)
      qed
      from grows_lookup [OF this Some] Cons.prems(2) have r1: "r1 = r" by simp
      from addSivaDir_flat_new [OF sub _ Cons.prems(3), of r1] Some r1 True show ?thesis
        by (auto simp: discovered_def)
    qed
  next
    case False
    obtain p1 lg1 where one: "addSivaFile root path f p lg = (p1, lg1)"
      by (cases "addSivaFile root path f p lg")
    with Cons.prems(1) False have rest: "addSivaDir_loop env root path True fs p1 lg1 = (e, p', lg')"
      by simp
    show ?thesis
    proof (cases "fmlookup (repositories p1) i")
      case None
      from Cons.IH [OF rest Cons.prems(2) None] show ?thesis
        by (simp add: discovered_Cons)
    next
      case (Some r1)
      from grows_lookup [OF addSivaDir_loop_rec_grows [OF rest] Some] Cons.prems(2)
      have r1: "r1 = r" by simp
      from addSivaFile_new [OF one _ Cons.prems(3), of r1] Some r1 False show ?thesis
        by (auto simp: discovered_def)
    qed
  qed
qed

lemma AddSivaDir_new:
  assumes "AddSivaDir env root p lg = (e, p', lg')"
    and "fmlookup (repositories p') i = Some r" and "fmlookup (repositories p) i = None"
  shows "r = sivaRepository i i \<and>
         (case ioutil_ReadDir env root of Inl err \<Rightarrow> False | Inr fs \<Rightarrow> discovered env root fs i)"
proof (cases "ioutil_ReadDir env root")
  case (Inl err)
  with assms show ?thesis by (simp add: AddSivaDir_def)
next
  case (Inr fs)
  with assms(1) have "addSivaDir_loop env root root True fs p lg = (e, p', lg')"
    by (simp add: AddSivaDir_def)
  from addSivaDir_loop_rec_new [OF this assms(2,3)] Inr show ?thesis by simp
qed

lemma AddDir_entry_grows:
  "AddDir_entry env prefix path f p lg = (p', lg') \<Longrightarrow> grows p lg p' lg'"
  using Add_lookup_old [of p _ _
      "gitRepo (IDFromPath env prefix (filepath_Join path (Name f))) (filepath_Join path (Name f))"]
  by (auto simp: AddDir_entry_def AddGitWithID_def grows_def Let_def
      split: if_splits sum.splits prod.splits option.splits)

lemma AddDir_entry_done:
  "IsDir f \<Longrightarrow> AddDir_entry env prefix path f p lg = (p', lg') \<Longrightarrow>
     git_entry_done env prefix path f p' lg'"
  using Add_dom [of
      "gitRepo (IDFromPath env prefix (filepath_Join path (Name f))) (filepath_Join path (Name f))" p]
  by (auto simp: AddDir_entry_def AddGitWithID_def git_entry_done_def Let_def gitRepo_def
      split: if_splits sum.splits prod.splits option.splits)

lemma AddDir_loop_done:
  "AddDir_loop env prefix path fs p lg = (p', lg') \<Longrightarrow>
     grows p lg p' lg' \<and> (\<forall>f\<in>set fs. IsDir f \<longrightarrow> git_entry_done env prefix path f p' lg')"
proof (induction fs arbitrary: p lg)
  case Nil
  then show ?case by (simp add: grows_refl)
next
  case (Cons f fs)
  obtain p1 lg1 where one: "AddDir_entry env prefix path f p lg = (p1, lg1)"
    by (cases "AddDir_entry env prefix path f p lg")
  with Cons.prems have rest: "AddDir_loop env prefix path fs p1 lg1 = (p', lg')"
    by simp
  note ih = Cons.IH [OF rest]
  from ih have g: "grows p1 lg1 p' lg'" by blast
  have "IsDir f \<longrightarrow> git_entry_done env prefix path f p' lg'"
    using AddDir_entry_done [OF _ one] g by (blast intro: git_entry_done_grows)
  moreover have "grows p lg p' lg'"
    using AddDir_entry_grows [OF one] g by (rule grows_trans)
  ultimately show ?case using ih by simp
qed

lemma register_each_simps:
  "register_each [] p = p"
  "register_each (r # rs) p = register_each rs (snd (Add r p))"
  "register_each (rs @ rs') p = register_each rs' (register_each rs p)"
  by (simp_all add: register_each_def)

lemma register_each_lookup:
  "fmlookup (repositories (register_each rs p)) j =
     (case fmlookup (repositories p) j of
        Some r \<Rightarrow> Some r
      | None \<Rightarrow> find (\<lambda>r. repository_ID r = j) rs)"
proof (induction rs arbitrary: p)
  case Nil
  then show ?case by (simp add: register_each_simps split: option.splits)
next
  case (Cons r rs)
  have "fmlookup (repositories (snd (Add r p))) j =
      (case fmlookup (repositories p) j of
         Some x \<Rightarrow> Some x
       | None \<Rightarrow> if repository_ID r = j then Some r else None)"
    by (auto simp: Add_def Let_def split: option.splits)
  with Cons.IH [of "snd (Add r p)"] show ?case
    by (simp add: register_each_simps split: option.splits)
qed

lemma opened_dirs_Cons:
  "opened_dirs env prefix path (f # fs) = opened_dirs env prefix path [f] @ opened_dirs env prefix path fs"
  by (simp add: opened_dirs_def)

lemma AddDir_entry_pool:
  "fst (AddDir_entry env prefix path f p lg) = register_each (opened_dirs env prefix path [f]) p"
  by (auto simp: AddDir_entry_def AddGitWithID_def opened_dirs_def register_each_simps Let_def
      split: sum.splits prod.splits option.splits)

lemma AddDir_loop_pool:
  "fst (AddDir_loop env prefix path fs p lg) = register_each (opened_dirs env prefix path fs) p"
proof (induction fs arbitrary: p lg)
  case Nil
  then show ?case by (simp add: opened_dirs_def register_each_simps)
next
  case (Cons f fs)
  obtain p1 lg1 where one: "AddDir_entry env prefix path f p lg = (p1, lg1)"
    by (cases "AddDir_entry env prefix path f p lg")
  with AddDir_entry_pool [of env prefix path f p lg]
  have "p1 = register_each (opened_dirs env prefix path [f]) p" by simp
  with one Cons.IH [of p1 lg1] show ?case
    by (simp add: opened_dirs_Cons [of env prefix path f fs] register_each_simps)
qed

lemma siva_names_Cons:
  "siva_names path (f # fs) = siva_names path [f] @ siva_names path fs"
  by (simp add: siva_names_def)

lemma addSivaFile_pool:
  "fst (addSivaFile root path f p lg)
     = register_each (map (\<lambda>x. sivaRepo x x) (siva_names path [f])) p"
  by (simp add: addSivaFile_def siva_names_def register_each_simps Let_def)

lemma addSivaDir_loop_flat_pool:
  "addSivaDir_loop env root path False fs p lg = (e, p', lg') \<Longrightarrow>
     p' = register_each (map (\<lambda>x. sivaRepo x x) (siva_names path fs)) p"
proof (induction fs arbitrary: p lg)
  case Nil
  then show ?case by (simp add: siva_names_def register_each_simps)
next
  case (Cons f fs)
  obtain p1 lg1 where one: "addSivaFile root path f p lg = (p1, lg1)"
    by (cases "addSivaFile root path f p lg")
  with Cons.prems have rest: "addSivaDir_loop env root path False fs p1 lg1 = (e, p', lg')"
    by simp
  from one addSivaFile_pool [of root path f p lg]
  have "p1 = register_each (map (\<lambda>x. sivaRepo x x) (siva_names path [f])) p" by simp
  with Cons.IH [OF rest] show ?case
    by (simp add: siva_names_Cons [of path f fs] register_each_simps)
qed

lemma siva_files_Cons:
  "siva_files env path (f # fs) = siva_files env path [f] @ siva_files env path fs"
  by (simp add: siva_files_def)

lemma addSivaDir_loop_rec_pool:
  "subdirs_readable env path fs \<Longrightarrow>
   addSivaDir_loop env root path True fs p lg = (e, p', lg') \<Longrightarrow>
     p' = register_each (map (\<lambda>x. sivaRepo x x) (siva_files env path fs)) p"
proof (induction fs arbitrary: p lg)
  case Nil
  then show ?case by (simp add: siva_files_def register_each_simps)
next
  case (Cons f fs)
  from Cons.prems(1) have rd: "subdirs_readable env path fs"
    by (simp add: subdirs_readable_def)
  show ?case
  proof (cases "IsDir f")
    case True
    with Cons.prems(1) obtain gs where gs: "ioutil_ReadDir env (filepath_Join path (Name f)) = Inr gs"
      by (cases "ioutil_ReadDir env (filepath_Join path (Name f))")
        (auto simp: subdirs_readable_def)
    obtain e1 p1 lg1
      where sub: "addSivaDir_loop env root (filepath_Join path (Name f)) False gs p lg = (e1, p1, lg1)"
      by (cases "addSivaDir_loop env root (filepath_Join path (Name f)) False gs p lg") auto
    from addSivaDir_loop_flat [OF sub] have e1: "e1 = None" by blast
    from addSivaDir_loop_flat_pool [OF sub]
    have p1: "p1 = register_each (map (\<lambda>x. sivaRepo x x) (siva_files env path [f])) p"
      using True gs by (simp add: siva_files_def)
    from Cons.prems(2) True gs sub e1
    have rest: "addSivaDir_loop env root path True fs p1 lg1 = (e, p', lg')"
      by simp
    from Cons.IH [OF rd rest] p1 show ?thesis
      by (simp add: siva_files_Cons [of env path f fs] register_each_simps)
  next
    case False
    obtain p1 lg1 where one: "addSivaFile root path f p lg = (p1, lg1)"
      by (cases "addSivaFile root path f p lg")
    with Cons.prems(2) False have rest: "addSivaDir_loop env root path True fs p1 lg1 = (e, p', lg')"
      by simp
    from one addSivaFile_pool [of root path f p lg] False
    have p1: "p1 = register_each (map (\<lambda>x. sivaRepo x x) (siva_files env path [f])) p"
      by (simp add: siva_files_def)
    from Cons.IH [OF rd rest] p1 show ?thesis
      by (simp add: siva_files_Cons [of env path f fs] register_each_simps)
  qed
qed

lemma AddDir_entry_cases:
  "AddDir_entry env prefix path f p lg =
     (if IsDir f then
        let pa = filepath_Join path (Name f);
            i = IDFromPath env prefix pa
        in (case git_PlainOpen env pa of
              Inl err \<Rightarrow>
                (p, lg @ [log_with ErrorLevel
                            [(''id'', LStr i), (''path'', LStr pa),
                             (''error'', LErr (ErrRepoCannotOpen err pa))]
                            ''repository could not be added''])
            | Inr repo \<Rightarrow>
                (case fmlookup (repositories p) i of
                   Some r0 \<Rightarrow>
                     (p, lg @ [log_with ErrorLevel
                                 [(''id'', LStr i), (''path'', LStr pa),
                                  (''error'', LErr (ErrRepoAlreadyRegistered (repository_Path r0)))]
                                 ''repository could not be added''])
                 | None \<Rightarrow>
                     (p\<lparr>idOrder := idOrder p @ [i],
                        repositories := fmupd i (gitRepository i pa) (repositories p)\<rparr>,
                      lg @ [log_with DebugLevel [(''path'', LStr pa)] ''repository added''])))
      else (p, lg))"
  by (simp add: AddDir_entry_def AddGitWithID_def Add_def gitRepo_def Let_def
      split: sum.splits option.splits)

lemmas tree_defs = env_tree_def regular_def directory_def AddSivaDir_def AddDir_def
  AddDir_entry_def AddGitWithID_def addSivaFile_def relativeFileName_def
  filepath_Join_def filepath_Clean_def HasSuffix_def HasPrefix_def TrimPrefix_def
  Add_def gitRepo_def sivaRepo_def NewRepositoryPool_def log_with_def Let_def

lemma tree_scan:
  "AddSivaDir env_tree ''tree'' NewRepositoryPool [] =
     (None,
      \<lparr>repositories =
         fmupd ''tree/sub/r2.siva'' (sivaRepository ''tree/sub/r2.siva'' ''tree/sub/r2.siva'')
           (fmupd ''tree/r1.siva'' (sivaRepository ''tree/r1.siva'' ''tree/r1.siva'') fmempty),
       idOrder = [''tree/r1.siva'', ''tree/sub/r2.siva'']\<rparr>,
      [log_with DebugLevel [(''file'', LStr ''r1.siva'')] ''repository added'',
       log_with WarnLevel [(''file'', LStr ''notes.txt'')] ''found a non-siva file, skipping'',
       log_with DebugLevel [(''file'', LStr ''/sub/r2.siva'')] ''repository added''])"
  by (simp add: tree_defs)

lemma repos_scan:
  "AddDir env_tree 0 ''repos'' NewRepositoryPool [] =
     (None,
      \<lparr>repositories = fmupd ''repos/y'' (gitRepository ''repos/y'' ''repos/y'') fmempty,
       idOrder = [''repos/y'']\<rparr>,
      [log_with ErrorLevel
         [(''id'', LStr ''repos/x''), (''path'', LStr ''repos/x''),
          (''error'', LErr (ErrRepoCannotOpen (ExternalError ''repository does not exist'')
                              ''repos/x''))]
         ''repository could not be added'',
       log_with DebugLevel [(''path'', LStr ''repos/y'')] ''repository added''])"
  by (simp add: tree_defs)

lemma root_scan:
  "AddSivaDir env_tree ''root'' NewRepositoryPool []
     = (Some (ExternalError ''permission denied''), NewRepositoryPool, [])"
  by (simp add: tree_defs)

lemma AddSivaDir_ok:
  assumes "ioutil_ReadDir env root = Inr fs"
    and "subdirs_readable env root fs"
    and "AddSivaDir env root p lg = (e, p', lg')"
  shows "e = None \<and> list_all (\<lambda>f. siva_scan_done env root root f p' lg') fs"
proof -
  from assms(1,3) have "addSivaDir_loop env root root True fs p lg = (e, p', lg')"
    by (simp add: AddSivaDir_def)
  with assms(2) show ?thesis by (rule addSivaDir_loop_rec_ok)
qed

lemma AddSivaDir_abort:
  assumes "ioutil_ReadDir env root = Inr (pre @ s # post)"
    and "subdirs_readable env root pre"
    and "IsDir s"
    and "ioutil_ReadDir env (filepath_Join root (Name s)) = Inl err"
  shows "AddSivaDir env root p lg = (Some err, snd (addSivaDir_loop env root root True pre p lg))"
  using addSivaDir_loop_rec_abort [OF assms(2,3,4)] assms(1)
  by (simp add: AddSivaDir_def)

lemma AddDir_ok:
  assumes "ioutil_ReadDir env path = Inr dirs"
    and "AddDir env prefix path p lg = (e, p', lg')"
  shows "e = None \<and> (\<forall>f\<in>set dirs. IsDir f \<longrightarrow> git_entry_done env prefix path f p' lg')"
proof -
  from assms have "AddDir_loop env prefix path dirs p lg = (p', lg')" and "e = None"
    by (auto simp: AddDir_def split: prod.splits)
  with AddDir_loop_done [of env prefix path dirs p lg p' lg'] show ?thesis by blast
qed

lemma AddDir_pool:
  assumes "ioutil_ReadDir env path = Inr dirs"
    and "AddDir env prefix path p lg = (e, p', lg')"
  shows "p' = register_each (opened_dirs env prefix path dirs) p"
  using assms AddDir_loop_pool [of env prefix path dirs p lg]
  by (auto simp: AddDir_def split: prod.splits)

lemma AddSivaDir_pool:
  assumes "ioutil_ReadDir env root = Inr fs"
    and "subdirs_readable env root fs"
    and "AddSivaDir env root p lg = (e, p', lg')"
  shows "p' = register_each (map (\<lambda>x. sivaRepo x x) (siva_files env root fs)) p"
proof -
  from assms(1,3) have "addSivaDir_loop env root root True fs p lg = (e, p', lg')"
    by (simp add: AddSivaDir_def)
  with assms(2) show ?thesis by (rule addSivaDir_loop_rec_pool)
qed

lemma AddSivaDir_abort_pool:
  assumes "subdirs_readable env root pre"
  shows "fst (snd (addSivaDir_loop env root root True pre p lg))
           = register_each (map (\<lambda>x. sivaRepo x x) (siva_files env root pre)) p"
proof -
  obtain e1 p1 lg1 where run: "addSivaDir_loop env root root True pre p lg = (e1, p1, lg1)"
    by (cases "addSivaDir_loop env root root True pre p lg") auto
  from addSivaDir_loop_rec_pool [OF assms run] run show ?thesis by simp
qed


lemma triple_split: "x = (fst x, fst (snd x), snd (snd x))"
  by simp

text \<open>
  C7, as the code has it. A backend that \<^verbatim>\<open>AddSivaDir\<close> adds to the pool is
  \<^verbatim>\<open>sivaRepo(path, path)\<close>: its id is its location, the path joined from the directory in
  which the file was found (the scan root, or a subdirectory of it joined to the root) and
  the name of the file; the relative name goes to the log only.
\<close>

theorem AddSivaDir_registers_joined_path:
  assumes "AddSivaDir env root p lg = (e, p', lg')"
    and "fmlookup (repositories p') i = Some r"
    and "fmlookup (repositories p) i = None"
  shows "r = sivaRepository i i \<and>
         (case ioutil_ReadDir env root of
            Inl err \<Rightarrow> False
          | Inr fs \<Rightarrow> discovered env root fs i)"
  using assms by (rule AddSivaDir_new)

theorem AddSivaDir_registers_joined_path_witness:
  "fmlookup (repositories (fst (snd (AddSivaDir env_tree ''tree'' NewRepositoryPool []))))
      ''tree/sub/r2.siva'' = Some (sivaRepository ''tree/sub/r2.siva'' ''tree/sub/r2.siva'')
   \<and> discovered env_tree ''tree'' [regular ''r1.siva'', regular ''notes.txt'', directory ''sub'']
        ''tree/sub/r2.siva''"
proof -
  have none: "fmlookup (repositories NewRepositoryPool) ''tree/sub/r2.siva'' = None"
    by (simp add: NewRepositoryPool_def)
  have some: "fmlookup (repositories
      \<lparr>repositories =
         fmupd ''tree/sub/r2.siva'' (sivaRepository ''tree/sub/r2.siva'' ''tree/sub/r2.siva'')
           (fmupd ''tree/r1.siva'' (sivaRepository ''tree/r1.siva'' ''tree/r1.siva'') fmempty),
       idOrder = [''tree/r1.siva'', ''tree/sub/r2.siva'']\<rparr>) ''tree/sub/r2.siva''
     = Some (sivaRepository ''tree/sub/r2.siva'' ''tree/sub/r2.siva'')"
    by simp
  have rd: "ioutil_ReadDir env_tree ''tree''
      = Inr [regular ''r1.siva'', regular ''notes.txt'', directory ''sub'']"
    by (simp add: env_tree_def)
  from AddSivaDir_registers_joined_path [OF tree_scan some none] show ?thesis
    by (simp add: tree_scan rd)
qed

theorem AddSivaDir_relative_id_counterexample:
  "idOrder (fst (snd (AddSivaDir env_tree ''tree'' NewRepositoryPool [])))
     = [''tree/r1.siva'', ''tree/sub/r2.siva'']
   \<and> fmlookup (repositories (fst (snd (AddSivaDir env_tree ''tree'' NewRepositoryPool []))))
        ''sub/r2.siva'' = None"
  by (simp add: tree_scan)

text \<open>
  C8, as the code has it. In \<^verbatim>\<open>AddDir\<close>, an entry that is no directory leaves pool and
  log as they are; a subdirectory that does not open leaves the pool as it is and adds
  one error entry carrying the error of the open; a subdirectory that opens is handed to
  \<^verbatim>\<open>Add\<close> as \<^verbatim>\<open>gitRepo(id, pa)\<close>: with a fresh id it is registered, with a registered id
  the pool stays as it is and the error of \<^verbatim>\<open>Add\<close> is logged. Once the directory has
  been read, \<^verbatim>\<open>AddDir\<close> returns no error, and the pool it leaves is the pool it began
  with after the subdirectories that open, and only those, have been handed to \<^verbatim>\<open>Add\<close>
  in order, whatever the other entries do; each subdirectory that does not open has its
  error in the log. \<^verbatim>\<open>AddSivaDir\<close> returns no error when every subdirectory can be
  read: the pool it leaves is the pool it began with after \<^verbatim>\<open>sivaRepo(path, path)\<close> has
  been handed to \<^verbatim>\<open>Add\<close> for each file with the suffix, in the root and one level
  below, and for no other entry, and each other file has its warning in the log. A
  subdirectory that cannot be read ends the scan: \<^verbatim>\<open>AddSivaDir\<close> returns that error
  with the pool and the log as the entries before the subdirectory left them, the files
  with the suffix among these registered, and the entries after it are not visited.
  Handing backends to \<^verbatim>\<open>Add\<close> in order leaves each id with the backend it had, and each
  fresh id with the first backend offered under it.
\<close>

theorem bulk_scan_entry_failures:
  "AddDir_entry env prefix path f p lg =
     (if IsDir f then
        let pa = filepath_Join path (Name f);
            i = IDFromPath env prefix pa
        in (case git_PlainOpen env pa of
              Inl err \<Rightarrow>
                (p, lg @ [log_with ErrorLevel
                            [(''id'', LStr i), (''path'', LStr pa),
                             (''error'', LErr (ErrRepoCannotOpen err pa))]
                            ''repository could not be added''])
            | Inr repo \<Rightarrow>
                (case fmlookup (repositories p) i of
                   Some r0 \<Rightarrow>
                     (p, lg @ [log_with ErrorLevel
                                 [(''id'', LStr i), (''path'', LStr pa),
                                  (''error'', LErr (ErrRepoAlreadyRegistered (repository_Path r0)))]
                                 ''repository could not be added''])
                 | None \<Rightarrow>
                     (p\<lparr>idOrder := idOrder p @ [i],
                        repositories := fmupd i (gitRepository i pa) (repositories p)\<rparr>,
                      lg @ [log_with DebugLevel [(''path'', LStr pa)] ''repository added''])))
      else (p, lg))
   \<and> (ioutil_ReadDir env path = Inr dirs \<and> AddDir env prefix path p lg = (e, p', lg') \<longrightarrow>
        e = None
        \<and> p' = register_each (opened_dirs env prefix path dirs) p
        \<and> (\<forall>f\<in>set dirs. IsDir f \<longrightarrow> git_entry_done env prefix path f p' lg'))
   \<and> (ioutil_ReadDir env root = Inr fs \<and> subdirs_readable env root fs
        \<and> AddSivaDir env root p lg = (e2, p2, lg2) \<longrightarrow>
        e2 = None
        \<and> p2 = register_each (map (\<lambda>x. sivaRepo x x) (siva_files env root fs)) p
        \<and> list_all (\<lambda>f. siva_scan_done env root root f p2 lg2) fs)
   \<and> (ioutil_ReadDir env root = Inr (pre @ s # post) \<and> subdirs_readable env root pre
        \<and> IsDir s \<and> ioutil_ReadDir env (filepath_Join root (Name s)) = Inl err \<longrightarrow>
        AddSivaDir env root p lg
          = (Some err, snd (addSivaDir_loop env root root True pre p lg))
        \<and> fst (snd (addSivaDir_loop env root root True pre p lg))
          = register_each (map (\<lambda>x. sivaRepo x x) (siva_files env root pre)) p)
   \<and> fmlookup (repositories (register_each rs p)) j =
       (case fmlookup (repositories p) j of
          Some r \<Rightarrow> Some r
        | None \<Rightarrow> find (\<lambda>r. repository_ID r = j) rs)"
proof (intro conjI impI)
  show "fmlookup (repositories (register_each rs p)) j =
       (case fmlookup (repositories p) j of
          Some r \<Rightarrow> Some r
        | None \<Rightarrow> find (\<lambda>r. repository_ID r = j) rs)"
    by (rule register_each_lookup)
next
  assume a: "ioutil_ReadDir env path = Inr dirs \<and> AddDir env prefix path p lg = (e, p', lg')"
  from a AddDir_ok [of env path dirs prefix p lg e p' lg']
  show "e = None" and "\<forall>f\<in>set dirs. IsDir f \<longrightarrow> git_entry_done env prefix path f p' lg'"
    by blast+
  from a show "p' = register_each (opened_dirs env prefix path dirs) p"
    by (blast intro: AddDir_pool)
next
  assume a: "ioutil_ReadDir env root = Inr fs \<and> subdirs_readable env root fs
        \<and> AddSivaDir env root p lg = (e2, p2, lg2)"
  from a AddSivaDir_ok [of env root fs p lg e2 p2 lg2]
  show "e2 = None" and "list_all (\<lambda>f. siva_scan_done env root root f p2 lg2) fs"
    by blast+
  from a show "p2 = register_each (map (\<lambda>x. sivaRepo x x) (siva_files env root fs)) p"
    by (blast intro: AddSivaDir_pool)
next
  assume a: "ioutil_ReadDir env root = Inr (pre @ s # post) \<and> subdirs_readable env root pre
        \<and> IsDir s \<and> ioutil_ReadDir env (filepath_Join root (Name s)) = Inl err"
  from a AddSivaDir_abort [of env root pre s post err p lg]
  show "AddSivaDir env root p lg
          = (Some err, snd (addSivaDir_loop env root root True pre p lg))"
    by blast
  from a show "fst (snd (addSivaDir_loop env root root True pre p lg))
          = register_each (map (\<lambda>x. sivaRepo x x) (siva_files env root pre)) p"
    by (blast intro: AddSivaDir_abort_pool)
qed (rule AddDir_entry_cases)


theorem bulk_scan_entry_failures_witness:
  "fst (snd (AddDir env_tree 0 ''repos'' NewRepositoryPool []))
     = \<lparr>repositories = fmupd ''repos/y'' (gitRepository ''repos/y'' ''repos/y'') fmempty,
        idOrder = [''repos/y'']\<rparr>
   \<and> fmlookup (repositories (fst (snd (AddDir env_tree 0 ''repos'' NewRepositoryPool []))))
        ''repos/x'' = None
   \<and> git_entry_done env_tree 0 ''repos'' (directory ''x'')
        (fst (snd (AddDir env_tree 0 ''repos'' NewRepositoryPool [])))
        (snd (snd (AddDir env_tree 0 ''repos'' NewRepositoryPool [])))
   \<and> fst (snd (AddDir env_tree 0 ''repos'' pool_taken [])) = pool_taken
   \<and> fst (snd (AddSivaDir env_tree ''tree'' NewRepositoryPool []))
     = \<lparr>repositories =
          fmupd ''tree/sub/r2.siva'' (sivaRepository ''tree/sub/r2.siva'' ''tree/sub/r2.siva'')
            (fmupd ''tree/r1.siva'' (sivaRepository ''tree/r1.siva'' ''tree/r1.siva'') fmempty),
        idOrder = [''tree/r1.siva'', ''tree/sub/r2.siva'']\<rparr>
   \<and> AddSivaDir env_tree ''root'' NewRepositoryPool []
        = (Some (ExternalError ''permission denied''), NewRepositoryPool, [])"
proof -
  have rd_repos: "ioutil_ReadDir env_tree ''repos''
      = Inr [directory ''x'', regular ''f'', directory ''y'']"
    by (simp add: env_tree_def)
  have rd_tree: "ioutil_ReadDir env_tree ''tree''
      = Inr [regular ''r1.siva'', regular ''notes.txt'', directory ''sub'']"
    by (simp add: env_tree_def)
  have rd_root: "ioutil_ReadDir env_tree ''root''
      = Inr ([] @ directory ''bad'' # [regular ''r1.siva'', regular ''notes.txt'', directory ''sub''])"
    by (simp add: env_tree_def)
  have rd_bad: "ioutil_ReadDir env_tree (filepath_Join ''root'' (Name (directory ''bad'')))
      = Inl (ExternalError ''permission denied'')"
    by (simp add: env_tree_def directory_def filepath_Join_def filepath_Clean_def)
  have readable: "subdirs_readable env_tree ''tree''
      [regular ''r1.siva'', regular ''notes.txt'', directory ''sub'']"
    by (simp add: subdirs_readable_def env_tree_def directory_def regular_def
        filepath_Join_def filepath_Clean_def)
  have pre: "subdirs_readable env_tree ''root'' []"
    by (simp add: subdirs_readable_def)
  have isdir: "IsDir (directory ''bad'')"
    by (simp add: directory_def)
  have opened: "opened_dirs env_tree 0 ''repos'' [directory ''x'', regular ''f'', directory ''y'']
      = [gitRepo ''repos/y'' ''repos/y'']"
    by (simp add: opened_dirs_def env_tree_def directory_def regular_def
        filepath_Join_def filepath_Clean_def)
  have found: "siva_files env_tree ''tree''
      [regular ''r1.siva'', regular ''notes.txt'', directory ''sub'']
      = [''tree/r1.siva'', ''tree/sub/r2.siva'']"
    by (simp add: siva_files_def siva_names_def env_tree_def directory_def regular_def
        filepath_Join_def filepath_Clean_def HasSuffix_def)
  note dir_fresh = bulk_scan_entry_failures [where env = env_tree and path = "''repos''"
      and prefix = 0 and p = NewRepositoryPool and lg = "[]",
      THEN conjunct2, THEN conjunct1, rule_format, OF conjI [OF rd_repos triple_split]]
  note dir_taken = bulk_scan_entry_failures [where env = env_tree and path = "''repos''"
      and prefix = 0 and p = pool_taken and lg = "[]",
      THEN conjunct2, THEN conjunct1, rule_format, OF conjI [OF rd_repos triple_split]]
  note siva_ok = bulk_scan_entry_failures [where env = env_tree and root = "''tree''"
      and p = NewRepositoryPool and lg = "[]",
      THEN conjunct2, THEN conjunct2, THEN conjunct1, rule_format,
      OF conjI [OF rd_tree conjI [OF readable triple_split]]]
  note siva_abort = bulk_scan_entry_failures [where env = env_tree and root = "''root''"
      and p = NewRepositoryPool and lg = "[]",
      THEN conjunct2, THEN conjunct2, THEN conjunct2, THEN conjunct1, rule_format,
      OF conjI [OF rd_root conjI [OF pre conjI [OF isdir rd_bad]]]]
  from dir_fresh have a: "fst (snd (AddDir env_tree 0 ''repos'' NewRepositoryPool []))
     = \<lparr>repositories = fmupd ''repos/y'' (gitRepository ''repos/y'' ''repos/y'') fmempty,
        idOrder = [''repos/y'']\<rparr>"
    by (simp add: opened register_each_def Add_def gitRepo_def NewRepositoryPool_def Let_def)
  from dir_fresh
  have "\<forall>f\<in>set [directory ''x'', regular ''f'', directory ''y'']. IsDir f \<longrightarrow>
      git_entry_done env_tree 0 ''repos'' f
        (fst (snd (AddDir env_tree 0 ''repos'' NewRepositoryPool [])))
        (snd (snd (AddDir env_tree 0 ''repos'' NewRepositoryPool [])))"
    by (rule conjunct2 [THEN conjunct2])
  then have b: "git_entry_done env_tree 0 ''repos'' (directory ''x'')
        (fst (snd (AddDir env_tree 0 ''repos'' NewRepositoryPool [])))
        (snd (snd (AddDir env_tree 0 ''repos'' NewRepositoryPool [])))"
    by (simp add: directory_def)
  from dir_taken have c: "fst (snd (AddDir env_tree 0 ''repos'' pool_taken [])) = pool_taken"
    by (simp add: opened register_each_def Add_def gitRepo_def pool_taken_def Let_def)
  from siva_ok have d: "fst (snd (AddSivaDir env_tree ''tree'' NewRepositoryPool []))
     = \<lparr>repositories =
          fmupd ''tree/sub/r2.siva'' (sivaRepository ''tree/sub/r2.siva'' ''tree/sub/r2.siva'')
            (fmupd ''tree/r1.siva'' (sivaRepository ''tree/r1.siva'' ''tree/r1.siva'') fmempty),
        idOrder = [''tree/r1.siva'', ''tree/sub/r2.siva'']\<rparr>"
    by (simp add: found register_each_def Add_def sivaRepo_def NewRepositoryPool_def Let_def)
  from siva_abort have e: "AddSivaDir env_tree ''root'' NewRepositoryPool []
        = (Some (ExternalError ''permission denied''), NewRepositoryPool, [])"
    by simp
  from a b c d e show ?thesis
    by simp
qed

theorem AddSivaDir_unreadable_subdir_counterexample:
  "ioutil_ReadDir env_tree ''root''
     = Inr [directory ''bad'', regular ''r1.siva'', regular ''notes.txt'', directory ''sub'']
   \<and> AddSivaDir env_tree ''root'' NewRepositoryPool []
       = (Some (ExternalError ''permission denied''), NewRepositoryPool, [])"
  by (simp add: root_scan) (simp add: env_tree_def)

text \<open>
  C9. \<^verbatim>\<open>AddSivaFile\<close> hands the backend to \<^verbatim>\<open>Add\<close> whatever the name of the file: with
  a fresh id the pool gains the backend, with a registered id the pool stays as it was
  and nothing reports the error of \<^verbatim>\<open>Add\<close>; the suffix decides only whether the warning
  precedes the entry \<^verbatim>\<open>repository added\<close> in the log.
\<close>

theorem AddSivaFile_ignores_suffix_and_error:
  "fst (AddSivaFile i path p lg) =
     (case fmlookup (repositories p) i of
        None \<Rightarrow> p\<lparr>idOrder := idOrder p @ [i],
                   repositories := fmupd i (sivaRepository i path) (repositories p)\<rparr>
      | Some r \<Rightarrow> p)
   \<and> snd (AddSivaFile i path p lg) =
       lg @ (if HasSuffix (filepath_Base path) ''.siva'' then []
             else [log_with WarnLevel [(''file'', LStr (filepath_Base path))]
                     ''found a non-siva file''])
          @ [log_with DebugLevel [(''file'', LStr (filepath_Base path))] ''repository added'']"
  by (simp add: AddSivaFile_def Add_def sivaRepo_def Let_def split: option.splits)

theorem AddSivaFile_ignores_suffix_and_error_witness:
  "AddSivaFile ''a'' ''/data/notes.txt'' NewRepositoryPool [] =
     (\<lparr>repositories = fmupd ''a'' (sivaRepository ''a'' ''/data/notes.txt'') fmempty,
       idOrder = [''a'']\<rparr>,
      [log_with WarnLevel [(''file'', LStr ''notes.txt'')] ''found a non-siva file'',
       log_with DebugLevel [(''file'', LStr ''notes.txt'')] ''repository added''])
   \<and> AddSivaFile ''a'' ''/other/r.siva''
        \<lparr>repositories = fmupd ''a'' (sivaRepository ''a'' ''/data/notes.txt'') fmempty,
         idOrder = [''a'']\<rparr> [] =
     (\<lparr>repositories = fmupd ''a'' (sivaRepository ''a'' ''/data/notes.txt'') fmempty,
       idOrder = [''a'']\<rparr>,
      [log_with DebugLevel [(''file'', LStr ''r.siva'')] ''repository added''])"
proof -
  have base: "filepath_Base ''/data/notes.txt'' = ''notes.txt''"
    "filepath_Base ''/other/r.siva'' = ''r.siva''"
    by (simp_all add: filepath_Base_def strip_trailing_slashes_def Let_def)
  note fresh = AddSivaFile_ignores_suffix_and_error [of "''a''" "''/data/notes.txt''"
      NewRepositoryPool "[]"]
  note dup = AddSivaFile_ignores_suffix_and_error [of "''a''" "''/other/r.siva''"
      "\<lparr>repositories = fmupd ''a'' (sivaRepository ''a'' ''/data/notes.txt'') fmempty,
         idOrder = [''a'']\<rparr>" "[]"]
  from fresh dup show ?thesis
    by (simp add: base HasSuffix_def NewRepositoryPool_def prod_eq_iff)
qed

section \<open>Properties of the composite row iterator\<close>

lemmas driver_defs = Next_body_def acquire_def advance_def RepositoryIter_Next_def Let_def

lemma sint_position: "k < 2 ^ 31 \<Longrightarrow> sint (of_nat k :: 32 word) = int k"
proof -
  assume k: "k < 2 ^ 31"
  then have "unat (of_nat k :: 32 word) = k"
    by (simp add: unat_of_nat)
  then have "uint (of_nat k :: 32 word) = int k"
    by (metis uint_nat)
  moreover from k have "signed_take_bit 31 (int k) = int k"
    by (simp add: signed_take_bit_int_eq_self)
  ultimately show ?thesis
    by (simp add: sint_uint)
qed

lemma repository_Repo_ID: "repository_Repo genv b = Ok repo \<Longrightarrow> ID repo = repository_ID b"
  by (cases b)
     (auto simp: NewRepositoryFromPath_def NewSivaRepositoryFromPath_def NewRepository_def
        split: sum.splits)

lemma created_append: "created (xs @ ys) = created xs @ created ys"
  by (induction xs rule: created.induct) simp_all

lemma good_pool_length: "good_pool p bs \<Longrightarrow> length (idOrder p) = length bs"
  by (metis good_pool_def backends_def length_map)

lemma cursor_in_range:
  assumes "good_pool p bs" and "k < length bs" and "pool c = p" and "pos c = of_nat k"
  shows "RepositoryIter_Next genv c =
           (case repository_Repo genv (bs ! k) of
              Panic m \<Rightarrow> (Panic m, c)
            | Err err \<Rightarrow> (Err err, c\<lparr>pos := of_nat (Suc k)\<rparr>)
            | Ok r \<Rightarrow> (Ok r, c\<lparr>pos := of_nat (Suc k)\<rparr>))"
proof -
  from assms(1) have inv: "pool_inv p" and bs: "backends p = map Some bs"
    and ne: "[] \<notin> set (idOrder p)" and small: "length bs < 2 ^ 31"
    by (simp_all add: good_pool_def)
  from assms(1,2) have k: "k < length (idOrder p)" by (simp add: good_pool_length)
  with ne have "idOrder p ! k \<noteq> []" by (metis nth_mem)
  from GetPos_in_range [OF inv k this, of genv] bs assms(2)
  have "GetPos genv p (int k) = repository_Repo genv (bs ! k)" by simp
  moreover from assms(2) small have "sint (of_nat k :: 32 word) = int k"
    by (simp add: sint_position)
  ultimately show ?thesis
    using assms(3,4) by (simp add: RepositoryIter_Next_def split: result.splits)
qed

lemma cursor_at_end:
  assumes "good_pool p bs" and "pool c = p" and "pos c = of_nat (length bs)"
  shows "RepositoryIter_Next genv c = (Err EOF, c\<lparr>pos := of_nat (Suc (length bs))\<rparr>)"
proof -
  from assms(1) have inv: "pool_inv p" and small: "length bs < 2 ^ 31"
    by (simp_all add: good_pool_def)
  from GetPos_at_end [OF inv, of genv] assms(1)
  have "GetPos genv p (int (length bs)) = Err EOF" by (simp add: good_pool_length)
  moreover from small have "sint (of_nat (length bs) :: 32 word) = int (length bs)"
    by (simp add: sint_position)
  ultimately show ?thesis
    using assms(2,3) by (simp add: RepositoryIter_Next_def)
qed

subsection \<open>One pass of the loop\<close>

lemma pass_active_row:
  assumes "\<not> ctx_Done env (polls i)" and "currRepoIter i = Some it"
    and "yields env it (r # rs)" and "at_position p skip k i"
  shows "\<exists>i1 it'. Next_body genv env i = Return (Ok r) i1 \<and> currRepoIter i1 = Some it'
           \<and> yields env it' rs \<and> at_position p skip k i1
           \<and> created (trace i1) = created (trace i)"
  using assms
  by (cases "iter_Next env it")
     (auto simp: driver_defs at_position_def created_append split: result.splits)

lemma pass_active_end:
  assumes "\<not> ctx_Done env (polls i)" and "currRepoIter i = Some it"
    and "yields env it []" and "at_position p skip k i"
  shows "\<exists>i1. Next_body genv env i = Continue i1 \<and> currRepoIter i1 = None
           \<and> at_position p skip k i1 \<and> created (trace i1) = created (trace i)"
  using assms
  by (cases "iter_Next env it")
     (auto simp: driver_defs at_position_def created_append split: result.splits)

lemma pass_end_of_pool:
  assumes "\<not> ctx_Done env (polls i)" and "currRepoIter i = None"
    and "good_pool p bs" and "at_position p skip (length bs) i"
  shows "\<exists>i1. Next_body genv env i = Return (Err EOF) i1
           \<and> created (trace i1) = created (trace i)"
  using assms cursor_at_end [OF assms(3), of "repositoryIter i" genv]
  by (auto simp: Next_body_def acquire_def Let_def at_position_def)

lemma pass_open_row:
  assumes "\<not> ctx_Done env (polls i)" and "currRepoIter i = None"
    and "good_pool p bs" and "at_position p skip k i" and "k < length bs"
    and "repo_yields genv env (bs ! k) (r # rs)"
  shows "\<exists>i1 it'. Next_body genv env i = Return (Ok r) i1 \<and> currRepoIter i1 = Some it'
           \<and> yields env it' rs \<and> at_position p skip (Suc k) i1
           \<and> created (trace i1) = created (trace i) @ [repository_ID (bs ! k)]"
proof -
  from assms(6) obtain repo it where repo: "repository_Repo genv (bs ! k) = Ok repo"
    and it: "NewIterator env repo = (Some it, None)" and ys: "yields env it (r # rs)"
    by (auto simp: repo_yields_def split: result.splits prod.splits option.splits)
  from assms(4) have "pool (repositoryIter i) = p" "pos (repositoryIter i) = of_nat k"
    by (simp_all add: at_position_def)
  from cursor_in_range [OF assms(3,5) this, of genv] repo
  have cur: "RepositoryIter_Next genv (repositoryIter i)
      = (Ok repo, (repositoryIter i)\<lparr>pos := of_nat (Suc k)\<rparr>)"
    by simp
  from ys obtain it' where nx: "iter_Next env it = (Ok r, it')" and ys': "yields env it' rs"
    by (cases "iter_Next env it") (auto split: result.splits)
  show ?thesis
    using assms(1,2,4) cur it nx ys' repository_Repo_ID [OF repo]
    by (simp add: Next_body_def acquire_def advance_def Let_def at_position_def created_append)
qed

lemma pass_open_empty:
  assumes "\<not> ctx_Done env (polls i)" and "currRepoIter i = None"
    and "good_pool p bs" and "at_position p skip k i" and "k < length bs"
    and "repo_yields genv env (bs ! k) []"
  shows "\<exists>i1. Next_body genv env i = Continue i1 \<and> currRepoIter i1 = None
           \<and> at_position p skip (Suc k) i1
           \<and> created (trace i1) = created (trace i) @ [repository_ID (bs ! k)]"
proof -
  from assms(6) obtain repo it where repo: "repository_Repo genv (bs ! k) = Ok repo"
    and it: "NewIterator env repo = (Some it, None)" and ys: "yields env it []"
    by (auto simp: repo_yields_def split: result.splits prod.splits option.splits)
  from assms(4) have "pool (repositoryIter i) = p" "pos (repositoryIter i) = of_nat k"
    by (simp_all add: at_position_def)
  from cursor_in_range [OF assms(3,5) this, of genv] repo
  have cur: "RepositoryIter_Next genv (repositoryIter i)
      = (Ok repo, (repositoryIter i)\<lparr>pos := of_nat (Suc k)\<rparr>)"
    by simp
  from ys obtain it' where nx: "iter_Next env it = (Err EOF, it')"
    by (cases "iter_Next env it") auto
  show ?thesis
    using assms(1,2,4) cur it nx repository_Repo_ID [OF repo]
    by (simp add: Next_body_def acquire_def advance_def Let_def at_position_def created_append)
qed

lemma pass_skip:
  assumes "\<not> ctx_Done env (polls i)" and "currRepoIter i = None"
    and "good_pool p bs" and "at_position p True k i" and "k < length bs"
    and "repo_fails genv env (bs ! k)"
  shows "\<exists>i1. Next_body genv env i = Continue i1 \<and> currRepoIter i1 = None
           \<and> at_position p True (Suc k) i1
           \<and> created (trace i1)
               = created (trace i) @ map repository_ID (filter (opens genv) [bs ! k])"
proof -
  from assms(4) have c: "pool (repositoryIter i) = p" "pos (repositoryIter i) = of_nat k"
    and sk: "SkipGitErrors (session i)"
    by (simp_all add: at_position_def)
  note cur = cursor_in_range [OF assms(3,5) c, of genv]
  show ?thesis
  proof (cases "repository_Repo genv (bs ! k)")
    case (Ok repo)
    with assms(6) obtain e where it: "NewIterator env repo = (None, Some e)"
      by (auto simp: repo_fails_def split: prod.splits option.splits)
    from Ok have "opens genv (bs ! k)" by (simp add: opens_def)
    then show ?thesis
      using assms(1,2) c sk cur Ok it repository_Repo_ID [OF Ok]
      by (simp add: Next_body_def acquire_def Let_def at_position_def created_append)
  next
    case (Err err)
    with assms(6) have "err \<noteq> EOF" by (simp add: repo_fails_def)
    moreover from Err have "\<not> opens genv (bs ! k)" by (simp add: opens_def)
    ultimately show ?thesis
      using assms(1,2) c sk cur Err
      by (simp add: Next_body_def acquire_def Let_def at_position_def)
  next
    case (Panic m)
    with assms(6) show ?thesis by (simp add: repo_fails_def)
  qed
qed


subsection \<open>The stream of a whole pool\<close>

lemma Next_continue:
  "Next_body genv env i = Continue i1
     \<Longrightarrow> rowRepoIter_Next genv env i = rowRepoIter_Next genv env i1"
  by (subst rowRepoIter_Next.simps) simp

lemma Next_return:
  "Next_body genv env i = Return r i1 \<Longrightarrow> rowRepoIter_Next genv env i = Some (r, i1)"
  by (subst rowRepoIter_Next.simps) simp

lemma streams_continue:
  assumes "Next_body genv env i = Continue i1"
    and "created (trace i1) = created (trace i) @ ids0"
    and "streams genv env i1 out ids"
  shows "streams genv env i out (ids0 @ ids)"
  using assms Next_continue [OF assms(1)]
  by (auto simp: streams_def)

lemma streams_row:
  assumes "Next_body genv env i = Return (Ok r) i1"
    and "created (trace i1) = created (trace i) @ ids0"
    and "streams genv env i1 out ids"
  shows "streams genv env i (r # out) (ids0 @ ids)"
  using assms Next_return [OF assms(1)]
  by (auto simp: streams_def)

lemma streams_end:
  assumes "Next_body genv env i = Return (Err EOF) i1"
    and "created (trace i1) = created (trace i)"
  shows "streams genv env i [] []"
  using assms Next_return [OF assms(1)]
  by (auto simp: streams_def)

lemma streams_active:
  assumes "\<forall>t. \<not> ctx_Done env t"
    and "\<And>j. at_position p skip k j \<Longrightarrow> currRepoIter j = None
           \<Longrightarrow> streams genv env j out ids"
  shows "at_position p skip k i \<Longrightarrow> currRepoIter i = Some it \<Longrightarrow> yields env it rs \<Longrightarrow>
           streams genv env i (rs @ out) ids"
proof (induction rs arbitrary: i it)
  case Nil
  from assms(1) have nc: "\<not> ctx_Done env (polls i)" by simp
  from pass_active_end [OF nc Nil(2,3,1), of genv]
  obtain i1 where b: "Next_body genv env i = Continue i1" and n: "currRepoIter i1 = None"
    and a: "at_position p skip k i1" and c: "created (trace i1) = created (trace i) @ []"
    by auto
  from streams_continue [OF b c assms(2) [OF a n]] show ?case by simp
next
  case (Cons r rs)
  from assms(1) have nc: "\<not> ctx_Done env (polls i)" by simp
  from pass_active_row [OF nc Cons.prems(2,3,1), of genv]
  obtain i1 it' where b: "Next_body genv env i = Return (Ok r) i1"
    and s: "currRepoIter i1 = Some it'" and y: "yields env it' rs"
    and a: "at_position p skip k i1" and c: "created (trace i1) = created (trace i) @ []"
    by auto
  from streams_row [OF b c Cons.IH [OF a s y]] show ?case by simp
qed

lemma streams_pool:
  assumes "\<forall>t. \<not> ctx_Done env t" and "good_pool p bs"
  shows "k \<le> length bs \<Longrightarrow> list_all2 (contributes genv env skip) (drop k bs) rss \<Longrightarrow>
         at_position p skip k i \<Longrightarrow> currRepoIter i = None \<Longrightarrow>
           streams genv env i (concat rss) (map repository_ID (filter (opens genv) (drop k bs)))"
proof (induction rss arbitrary: k i)
  case Nil
  then have "k = length bs" by simp
  from assms(1) have nc: "\<not> ctx_Done env (polls i)" by simp
  from pass_end_of_pool [OF nc Nil(4) assms(2), of skip genv] Nil(3) \<open>k = length bs\<close>
  obtain i1 where "Next_body genv env i = Return (Err EOF) i1"
    and "created (trace i1) = created (trace i)"
    by auto
  from streams_end [OF this] \<open>k = length bs\<close> show ?case by simp
next
  case (Cons rs rss)
  from assms(1) have nc: "\<not> ctx_Done env (polls i)" by simp
  from Cons.prems(2) obtain b rest where dr: "drop k bs = b # rest"
    and cb: "contributes genv env skip b rs"
    and cr: "list_all2 (contributes genv env skip) rest rss"
    by (auto simp: list_all2_Cons2)
  from dr have k: "k < length bs" by (metis drop_all list.distinct(1) not_le)
  from dr k have bk: "bs ! k = b" and rest: "drop (Suc k) bs = rest"
    by (metis Cons_nth_drop_Suc list.inject)+
  from k have k': "Suc k \<le> length bs" by simp
  have tail: "\<And>j. at_position p skip (Suc k) j \<Longrightarrow> currRepoIter j = None \<Longrightarrow>
      streams genv env j (concat rss) (map repository_ID (filter (opens genv) rest))"
    using Cons.IH [OF k'] cr rest by simp
  show ?case
  proof (cases "repo_yields genv env b rs")
    case True
    then have op: "opens genv b"
      by (auto simp: repo_yields_def opens_def split: result.splits)
    show ?thesis
    proof (cases rs)
      case Nil
      from pass_open_empty [OF nc Cons.prems(4) assms(2) Cons.prems(3) k] True bk Nil
      obtain i1 where b1: "Next_body genv env i = Continue i1" and n: "currRepoIter i1 = None"
        and a: "at_position p skip (Suc k) i1"
        and c: "created (trace i1) = created (trace i) @ [repository_ID b]"
        by auto
      from streams_continue [OF b1 c tail [OF a n]] Nil op dr show ?thesis by simp
    next
      case (Cons r rs')
      from pass_open_row [OF nc Cons.prems(4) assms(2) Cons.prems(3) k, of genv r rs']
        True bk Cons
      obtain i1 it' where b1: "Next_body genv env i = Return (Ok r) i1"
        and s: "currRepoIter i1 = Some it'" and y: "yields env it' rs'"
        and a: "at_position p skip (Suc k) i1"
        and c: "created (trace i1) = created (trace i) @ [repository_ID b]"
        by auto
      from streams_active [OF assms(1) tail a s y]
      have "streams genv env i1 (rs' @ concat rss)
              (map repository_ID (filter (opens genv) rest))"
        by simp
      from streams_row [OF b1 c this] Cons op dr show ?thesis by simp
    qed
  next
    case False
    with cb have sk: "skip" and fl: "repo_fails genv env b" and e: "rs = []"
      by (simp_all add: contributes_def)
    from Cons.prems(3) sk have "at_position p True k i" by simp
    from pass_skip [OF nc Cons.prems(4) assms(2) this k, of genv] fl bk sk
    obtain i1 where b1: "Next_body genv env i = Continue i1" and n: "currRepoIter i1 = None"
      and a: "at_position p skip (Suc k) i1"
      and c: "created (trace i1)
               = created (trace i) @ map repository_ID (filter (opens genv) [b])"
      by auto
    from streams_continue [OF b1 c tail [OF a n]] e dr show ?thesis
      by (cases "opens genv b") simp_all
  qed
qed

subsection \<open>The range of the cursor and the end of a cancelled call\<close>

text \<open>
  The position wraps at \<open>2 ^ 31\<close>: a cursor that has been advanced that often indexes
  the slice with a negative position.
\<close>

lemma cursor_wraps:
  "RepositoryIter_Next env_ok \<lparr>pos = 0x7FFFFFFF, pool = NewRepositoryPool\<rparr>
     = (Err EOF, \<lparr>pos = 0x80000000, pool = NewRepositoryPool\<rparr>)"
  "RepositoryIter_Next env_ok \<lparr>pos = 0x80000000, pool = NewRepositoryPool\<rparr>
     = (Panic ''index out of range'', \<lparr>pos = 0x80000000, pool = NewRepositoryPool\<rparr>)"
  by (simp_all add: RepositoryIter_Next_def GetPos_def NewRepositoryPool_def fcard_fempty)

text \<open>
  Each pass polls the context once, so a call of \<^verbatim>\<open>Next\<close> returns once the context
  stays cancelled, also when errors are skipped and an iterator fails for ever.
\<close>

lemma pass_polls:
  "Next_body genv env i = Continue i1 \<Longrightarrow> polls i1 = Suc (polls i)"
  by (auto simp: driver_defs split: if_splits option.splits prod.splits result.splits)

lemma Next_returns_once_cancelled:
  assumes "\<forall>t\<ge>t0. ctx_Done env t"
  shows "\<exists>r i'. rowRepoIter_Next genv env i = Some (r, i')"
proof (induction "t0 - polls i" arbitrary: i)
  case 0
  with assms have "ctx_Done env (polls i)" by simp
  then have "Next_body genv env i
      = Return (Err ErrSessionCanceled) (i\<lparr>polls := Suc (polls i)\<rparr>)"
    by (simp add: Next_body_def Let_def)
  then show ?case by (simp add: Next_return)
next
  case (Suc n)
  show ?case
  proof (cases "Next_body genv env i")
    case (Continue i1)
    from pass_polls [OF Continue] Suc(2) have "n = t0 - polls i1" by simp
    from Suc(1) [OF this] Next_continue [OF Continue] show ?thesis by simp
  next
    case (Return r i1)
    then show ?thesis by (simp add: Next_return)
  qed
qed

text \<open>
  The block falls through with an iterator in two cases only: the iterator was the active
  one when the pass began, or the cursor gave a repository and \<^verbatim>\<open>NewIterator\<close> created the
  iterator for it without error in this pass.
\<close>

lemma acquire_falls:
  assumes "acquire genv env i = Falls i1" and "currRepoIter i1 = Some it"
  shows "(currRepoIter i = Some it \<and> i1 = i)
       \<or> (currRepoIter i = None
            \<and> (\<exists>repo ri. RepositoryIter_Next genv (repositoryIter i) = (Ok repo, ri)
                  \<and> NewIterator env repo = (Some it, None)
                  \<and> i1 = i\<lparr>repositoryIter := ri, currRepoIter := Some it,
                             trace := trace i @ [CallNewIterator repo]\<rparr>))"
  using assms
  by (auto simp: acquire_def Let_def split: option.splits prod.splits result.splits if_splits)

lemma fresh_driver_streams:
  assumes "Add_list bs NewRepositoryPool = Some p"
    and "[] \<notin> set (map repository_ID bs)"
    and "length bs < 2 ^ 31"
    and "list_all2 (contributes genv env skip) bs rss"
    and "\<forall>t. \<not> ctx_Done env t"
    and "NewRowRepoIter (Some \<lparr>Pool = p, SkipGitErrors = skip\<rparr>) = Ok i"
  shows "\<exists>i'. Next_times (Suc (length (concat rss))) genv env i
                 = Some (map Ok (concat rss) @ [Err EOF], i')
              \<and> created (trace i') = map repository_ID (filter (opens genv) bs)"
proof -
  have start: "backends NewRepositoryPool = []" "idOrder NewRepositoryPool = []"
    by (simp_all add: backends_def NewRepositoryPool_def)
  note built = Add_list_inv [OF pool_inv_empty assms(1), unfolded start append_Nil]
  with assms(2,3) have good: "good_pool p bs"
    by (simp add: good_pool_def)
  from assms(6) have i: "i = \<lparr>currRepoIter = None, repositoryIter = RepoIter p,
      session = \<lparr>Pool = p, SkipGitErrors = skip\<rparr>, polls = 0, trace = []\<rparr>"
    by (simp add: NewRowRepoIter_def)
  then have at: "at_position p skip 0 i" and none: "currRepoIter i = None"
    and tr: "created (trace i) = []"
    by (simp_all add: at_position_def RepoIter_def)
  from streams_pool [OF assms(5) good, of 0 genv skip rss i] assms(4) at none
  have "streams genv env i (concat rss) (map repository_ID (filter (opens genv) bs))"
    by simp
  with tr show ?thesis by (simp add: streams_def)
qed

lemma yields_opens: "list_all2 (repo_yields genv env) bs rss \<Longrightarrow> filter (opens genv) bs = bs"
  by (induction bs rss rule: list_all2_induct)
     (auto simp: repo_yields_def opens_def split: result.splits)

lemma yields_contributes:
  "list_all2 (repo_yields genv env) bs rss \<Longrightarrow> list_all2 (contributes genv env skip) bs rss"
  by (erule list_all2_mono) (simp add: contributes_def)

lemma two_repos_built:
  "Add_list [gitRepo ''a'' ''/a'', gitRepo ''b'' ''/b''] NewRepositoryPool
     = Some (pool_of [gitRepo ''a'' ''/a'', gitRepo ''b'' ''/b''])"
  by (simp add: pool_of_def Add_def gitRepo_def NewRepositoryPool_def Let_def)

lemma fresh_driver:
  "NewRowRepoIter (Some \<lparr>Pool = pool_of bs, SkipGitErrors = skip\<rparr>) = Ok (driver_of skip bs)"
  by (simp add: NewRowRepoIter_def driver_of_def)

lemma never_cancelled: "\<forall>t. \<not> ctx_Done env_rows t"
  by (simp add: env_rows_def)

lemmas rows_defs = repo_yields_def repo_fails_def env_ok_def env_broken_def env_rows_def
  script_Next_def gitRepo_def NewRepositoryFromPath_def NewRepository_def

lemma three_repos_built:
  "Add_list ([gitRepo ''a'' ''/a''] @ gitRepo ''x'' ''/broken'' # [gitRepo ''b'' ''/b''])
      NewRepositoryPool
     = Some (pool_of [gitRepo ''a'' ''/a'', gitRepo ''x'' ''/broken'', gitRepo ''b'' ''/b''])"
  by (simp add: pool_of_def Add_def gitRepo_def NewRepositoryPool_def Let_def)

text \<open>
  C1, as the code has it. A pool is built by the registrations \<open>bs\<close>, fewer than
  \<open>2 ^ 31\<close> of them and none under the empty id; each backend opens, gets its iterator
  and gives the rows of \<open>rss\<close>; the context is never cancelled. Then the calls of
  \<^verbatim>\<open>Next\<close> on a new iterator return the rows of the repositories one after the other in
  the order of registration, each repository's rows together and in the order its own
  iterator gives them, with nothing between them, and the call after the last row
  returns \<^verbatim>\<open>io.EOF\<close>; \<^verbatim>\<open>NewIterator\<close> has been called once for each repository, in that
  order.
\<close>

theorem composite_stream_flattens:
  assumes "Add_list bs NewRepositoryPool = Some p"
    and "[] \<notin> set (map repository_ID bs)"
    and "length bs < 2 ^ 31"
    and "list_all2 (repo_yields genv env) bs rss"
    and "\<forall>t. \<not> ctx_Done env t"
    and "NewRowRepoIter (Some \<lparr>Pool = p, SkipGitErrors = skip\<rparr>) = Ok i"
  shows "\<exists>i'. Next_times (Suc (length (concat rss))) genv env i
                 = Some (map Ok (concat rss) @ [Err EOF], i')
              \<and> created (trace i') = map repository_ID bs"
  using fresh_driver_streams [OF assms(1,2,3) yields_contributes [OF assms(4)] assms(5,6)]
    yields_opens [OF assms(4)]
  by simp

theorem composite_stream_flattens_witness:
  "map_option fst (Next_times 4 env_ok env_rows
      (driver_of False [gitRepo ''a'' ''/a'', gitRepo ''b'' ''/b'']))
     = Some [Ok 1, Ok 2, Ok 3, Err EOF]"
proof -
  have ids: "[] \<notin> set (map repository_ID [gitRepo ''a'' ''/a'', gitRepo ''b'' ''/b''])"
    by (simp add: gitRepo_def)
  have small: "length [gitRepo ''a'' ''/a'', gitRepo ''b'' ''/b''] < 2 ^ 31"
    by simp
  have rows: "list_all2 (repo_yields env_ok env_rows)
      [gitRepo ''a'' ''/a'', gitRepo ''b'' ''/b''] [ [1, 2], [3]]"
    by (simp add: rows_defs)
  from composite_stream_flattens [OF two_repos_built ids small rows never_cancelled
      fresh_driver [where skip = False]]
  obtain i' where run:
    "Next_times (Suc (length (concat [ [1::nat, 2], [3]]))) env_ok env_rows
        (driver_of False [gitRepo ''a'' ''/a'', gitRepo ''b'' ''/b''])
       = Some (map Ok (concat [ [1, 2], [3]]) @ [Err EOF], i')"
    by blast
  have n: "Suc (length (concat [ [1::nat, 2], [3]])) = 4"
    by simp
  have out: "map Ok (concat [ [1::nat, 2], [3]]) @ [Err EOF] = [Ok 1, Ok 2, Ok 3, Err EOF]"
    by simp
  from run show ?thesis
    unfolding n out by simp
qed

theorem composite_stream_empty_id_counterexample:
  "Add_list [gitRepo '''' ''/a'', gitRepo ''b'' ''/b''] NewRepositoryPool
     = Some (pool_of [gitRepo '''' ''/a'', gitRepo ''b'' ''/b''])
   \<and> repo_yields env_ok env_rows (gitRepo '''' ''/a'') [1, 2]
   \<and> repo_yields env_ok env_rows (gitRepo ''b'' ''/b'') [3]
   \<and> map_option fst (rowRepoIter_Next env_ok env_rows
        (driver_of False [gitRepo '''' ''/a'', gitRepo ''b'' ''/b''])) = Some (Err EOF)"
  by code_simp

text \<open>
  C3, as the code has it. In a pool as above, one backend fails: it does not open, with
  an error other than \<^verbatim>\<open>io.EOF\<close>, or \<^verbatim>\<open>NewIterator\<close> returns no iterator and an error
  for it. With \<^verbatim>\<open>SkipGitErrors\<close> set, the calls of \<^verbatim>\<open>Next\<close> return the rows of the
  backends before it and after it, in order, and then \<^verbatim>\<open>io.EOF\<close>: no call returns the
  failure.
\<close>

theorem skipped_repository_leaves_the_rest:
  assumes "Add_list (pre @ b # post) NewRepositoryPool = Some p"
    and "[] \<notin> set (map repository_ID (pre @ b # post))"
    and "length (pre @ b # post) < 2 ^ 31"
    and "list_all2 (repo_yields genv env) pre rss1"
    and "repo_fails genv env b"
    and "list_all2 (repo_yields genv env) post rss2"
    and "\<forall>t. \<not> ctx_Done env t"
    and "NewRowRepoIter (Some \<lparr>Pool = p, SkipGitErrors = True\<rparr>) = Ok i"
  shows "\<exists>i'. Next_times (Suc (length (concat (rss1 @ rss2)))) genv env i
                 = Some (map Ok (concat (rss1 @ rss2)) @ [Err EOF], i')"
proof -
  from assms(5) have "contributes genv env True b []"
    by (simp add: contributes_def)
  with yields_contributes [OF assms(4), of True] yields_contributes [OF assms(6), of True]
  have "list_all2 (contributes genv env True) (pre @ b # post) (rss1 @ [] # rss2)"
    by (simp add: list_all2_appendI)
  from fresh_driver_streams [OF assms(1,2,3) this assms(7,8)] show ?thesis
    by auto
qed

theorem skipped_repository_leaves_the_rest_witness:
  "map_option fst (Next_times 4 env_broken env_rows
      (driver_of True [gitRepo ''a'' ''/a'', gitRepo ''x'' ''/broken'', gitRepo ''b'' ''/b'']))
     = Some [Ok 1, Ok 2, Ok 3, Err EOF]"
proof -
  have ids: "[] \<notin> set (map repository_ID
      ([gitRepo ''a'' ''/a''] @ gitRepo ''x'' ''/broken'' # [gitRepo ''b'' ''/b'']))"
    by (simp add: gitRepo_def)
  have small: "length ([gitRepo ''a'' ''/a''] @ gitRepo ''x'' ''/broken'' # [gitRepo ''b'' ''/b''])
      < 2 ^ 31"
    by simp
  have rows1: "list_all2 (repo_yields env_broken env_rows) [gitRepo ''a'' ''/a''] [ [1, 2]]"
    by (simp add: rows_defs)
  have fails: "repo_fails env_broken env_rows (gitRepo ''x'' ''/broken'')"
    by (simp add: rows_defs)
  have rows2: "list_all2 (repo_yields env_broken env_rows) [gitRepo ''b'' ''/b''] [ [3]]"
    by (simp add: rows_defs)
  from skipped_repository_leaves_the_rest [OF three_repos_built ids small rows1 fails rows2
      never_cancelled fresh_driver [where skip = True]]
  obtain i' where run:
    "Next_times (Suc (length (concat ([ [1::nat, 2]] @ [ [3]])))) env_broken env_rows
        (driver_of True [gitRepo ''a'' ''/a'', gitRepo ''x'' ''/broken'', gitRepo ''b'' ''/b''])
       = Some (map Ok (concat ([ [1, 2]] @ [ [3]])) @ [Err EOF], i')"
    by auto
  have n: "Suc (length (concat ([ [1::nat, 2]] @ [ [3]]))) = 4"
    by simp
  have out: "map Ok (concat ([ [1::nat, 2]] @ [ [3]])) @ [Err EOF] = [Ok 1, Ok 2, Ok 3, Err EOF]"
    by simp
  from run show ?thesis
    unfolding n out by simp
qed

theorem skipped_repository_counterexample:
  "Add_list [gitRepo ''t'' ''/truncated'', gitRepo ''b'' ''/b''] NewRepositoryPool
     = Some (pool_of [gitRepo ''t'' ''/truncated'', gitRepo ''b'' ''/b''])
   \<and> repository_Repo env_broken (gitRepo ''t'' ''/truncated'') = Err EOF
   \<and> repo_yields env_broken env_rows (gitRepo ''b'' ''/b'') [3]
   \<and> map_option fst (rowRepoIter_Next env_broken env_rows
        (driver_of True [gitRepo ''t'' ''/truncated'', gitRepo ''b'' ''/b''])) = Some (Err EOF)
   \<and> Add_list [gitRepo '''' ''/a'', gitRepo ''x'' ''/broken''] NewRepositoryPool
     = Some (pool_of [gitRepo '''' ''/a'', gitRepo ''x'' ''/broken''])
   \<and> repo_yields env_broken env_rows (gitRepo '''' ''/a'') [1, 2]
   \<and> repo_fails env_broken env_rows (gitRepo ''x'' ''/broken'')
   \<and> map_option fst (rowRepoIter_Next env_broken env_rows
        (driver_of True [gitRepo '''' ''/a'', gitRepo ''x'' ''/broken''])) = Some (Err EOF)"
  by code_simp

text \<open>
  C4. When the channel of the context is closed at a poll, that pass of the loop returns
  \<^verbatim>\<open>ErrSessionCanceled\<close> and so does \<^verbatim>\<open>Next\<close>, in any state of the iterator and with any
  value of \<^verbatim>\<open>SkipGitErrors\<close>; the iterator is left as it was (no cursor step, no call
  to a collaborator), but for the count of the polls.
\<close>

theorem Next_cancelled:
  assumes "ctx_Done env (polls i)"
  shows "Next_body genv env i = Return (Err ErrSessionCanceled) (i\<lparr>polls := Suc (polls i)\<rparr>)
       \<and> rowRepoIter_Next genv env i
           = Some (Err ErrSessionCanceled, i\<lparr>polls := Suc (polls i)\<rparr>)"
proof -
  from assms
  have "Next_body genv env i = Return (Err ErrSessionCanceled) (i\<lparr>polls := Suc (polls i)\<rparr>)"
    by (simp add: Next_body_def Let_def)
  then show ?thesis
    by (simp add: Next_return)
qed

theorem Next_cancelled_witness:
  "rowRepoIter_Next env_ok env_cancelled
      ((driver_of True [gitRepo ''c'' ''/c''])\<lparr>currRepoIter := Some [Ok 7]\<rparr>)
     = Some (Err ErrSessionCanceled,
             (driver_of True [gitRepo ''c'' ''/c''])\<lparr>currRepoIter := Some [Ok 7], polls := 1\<rparr>)"
proof -
  have "ctx_Done env_cancelled
      (polls ((driver_of True [gitRepo ''c'' ''/c''])\<lparr>currRepoIter := Some [Ok 7]\<rparr>))"
    by (simp add: env_cancelled_def)
  from Next_cancelled [OF this, of env_ok] show ?thesis
    by (simp add: driver_of_def)
qed

text \<open>
  The first pass on a pool that holds the repository at \<^verbatim>\<open>/c\<close> alone: the cursor gives
  it, and the iterator created for it fails once.
\<close>

lemma cursor_c:
  "RepositoryIter_Next env_ok (repositoryIter (driver_of skip [gitRepo ''c'' ''/c'']))
     = (Ok \<lparr>ID = ''c'', Repo = ''/c''\<rparr>, \<lparr>pos = 1, pool = pool_of [gitRepo ''c'' ''/c'']\<rparr>)"
  by (simp add: driver_of_def RepoIter_def RepositoryIter_Next_def GetPos_def GetRepo_def
      pool_of_def Add_def gitRepo_def NewRepositoryPool_def Let_def env_ok_def
      NewRepositoryFromPath_def NewRepository_def fcard_finsert_if fcard_fempty)

lemma iterator_c:
  "NewIterator env_rows \<lparr>ID = ''c'', Repo = ''/c''\<rparr>
     = (Some [Err (ExternalError ''object not found''), Ok 7], None)"
  "iter_Next env_rows [Err (ExternalError ''object not found''), Ok 7]
     = (Err (ExternalError ''object not found''), [Ok 7])"
  "\<not> ctx_Done env_rows t"
  by (simp_all add: env_rows_def script_Next_def)




text \<open>
  C2, as the code has it. With \<^verbatim>\<open>SkipGitErrors\<close> unset, when \<^verbatim>\<open>Next\<close> of the active
  iterator returns an error other than \<^verbatim>\<open>io.EOF\<close>, \<^verbatim>\<open>Next\<close> returns that error at once
  and calls no \<^verbatim>\<open>Close\<close>: the iterator stays the active one, in the state the failed
  call left it in, and it is \<^verbatim>\<open>rowRepoIter.Close\<close> that closes it. This holds for an
  iterator that was the active one when the pass began, and for one that \<^verbatim>\<open>NewIterator\<close>
  created in this very pass, whose first \<^verbatim>\<open>Next\<close> fails.
\<close>

theorem Next_error_surfaces_unclosed:
  assumes "\<not> ctx_Done env (polls i)"
    and "iter_Next env it = (Err err, it')"
    and "err \<noteq> EOF"
    and "\<not> SkipGitErrors (session i)"
  shows "(currRepoIter i = Some it \<longrightarrow>
            rowRepoIter_Next genv env i =
              Some (Err err, i\<lparr>polls := Suc (polls i), currRepoIter := Some it',
                              trace := trace i @ [CallNext it]\<rparr>)
            \<and> snd (rowRepoIter_Close env (i\<lparr>polls := Suc (polls i), currRepoIter := Some it',
                              trace := trace i @ [CallNext it]\<rparr>))
              = i\<lparr>polls := Suc (polls i), currRepoIter := Some it',
                   trace := trace i @ [CallNext it, CallClose it', CallIterClose]\<rparr>)
       \<and> (currRepoIter i = None
            \<and> RepositoryIter_Next genv (repositoryIter i) = (Ok repo, ri)
            \<and> NewIterator env repo = (Some it, None) \<longrightarrow>
            rowRepoIter_Next genv env i =
              Some (Err err, i\<lparr>polls := Suc (polls i), repositoryIter := ri,
                              currRepoIter := Some it',
                              trace := trace i @ [CallNewIterator repo, CallNext it]\<rparr>)
            \<and> snd (rowRepoIter_Close env (i\<lparr>polls := Suc (polls i), repositoryIter := ri,
                              currRepoIter := Some it',
                              trace := trace i @ [CallNewIterator repo, CallNext it]\<rparr>))
              = i\<lparr>polls := Suc (polls i), repositoryIter := ri, currRepoIter := Some it',
                   trace := trace i @ [CallNewIterator repo, CallNext it, CallClose it',
                                       CallIterClose]\<rparr>)"
proof (intro conjI impI)
  assume "currRepoIter i = Some it"
  with assms have "Next_body genv env i =
      Return (Err err) (i\<lparr>polls := Suc (polls i), currRepoIter := Some it',
                           trace := trace i @ [CallNext it]\<rparr>)"
    by (simp add: driver_defs)
  then show "rowRepoIter_Next genv env i =
              Some (Err err, i\<lparr>polls := Suc (polls i), currRepoIter := Some it',
                              trace := trace i @ [CallNext it]\<rparr>)"
    by (rule Next_return)
next
  assume "currRepoIter i = None
            \<and> RepositoryIter_Next genv (repositoryIter i) = (Ok repo, ri)
            \<and> NewIterator env repo = (Some it, None)"
  with assms have "Next_body genv env i =
      Return (Err err) (i\<lparr>polls := Suc (polls i), repositoryIter := ri,
                              currRepoIter := Some it',
                              trace := trace i @ [CallNewIterator repo, CallNext it]\<rparr>)"
    by (simp add: Next_body_def acquire_def advance_def Let_def)
  then show "rowRepoIter_Next genv env i =
              Some (Err err, i\<lparr>polls := Suc (polls i), repositoryIter := ri,
                              currRepoIter := Some it',
                              trace := trace i @ [CallNewIterator repo, CallNext it]\<rparr>)"
    by (rule Next_return)
qed (simp_all add: rowRepoIter_Close_def)

theorem Next_error_surfaces_unclosed_witness:
  "rowRepoIter_Next env_ok env_rows
      ((driver_of False [gitRepo ''c'' ''/c''])
         \<lparr>currRepoIter := Some [Err (ExternalError ''object not found''), Ok 7]\<rparr>)
     = Some (Err (ExternalError ''object not found''),
         (driver_of False [gitRepo ''c'' ''/c''])
           \<lparr>currRepoIter := Some [Ok 7], polls := 1,
             trace := [CallNext [Err (ExternalError ''object not found''), Ok 7]]\<rparr>)
   \<and> rowRepoIter_Next env_ok env_rows (driver_of False [gitRepo ''c'' ''/c''])
     = Some (Err (ExternalError ''object not found''),
         (driver_of False [gitRepo ''c'' ''/c''])
           \<lparr>currRepoIter := Some [Ok 7],
             repositoryIter := \<lparr>pos = 1, pool = pool_of [gitRepo ''c'' ''/c'']\<rparr>,
             polls := 1,
             trace := [CallNewIterator \<lparr>ID = ''c'', Repo = ''/c''\<rparr>,
                       CallNext [Err (ExternalError ''object not found''), Ok 7]]\<rparr>)
   \<and> trace (snd (rowRepoIter_Close env_rows
         ((driver_of False [gitRepo ''c'' ''/c''])
           \<lparr>currRepoIter := Some [Ok 7],
             repositoryIter := \<lparr>pos = 1, pool = pool_of [gitRepo ''c'' ''/c'']\<rparr>,
             polls := 1,
             trace := [CallNewIterator \<lparr>ID = ''c'', Repo = ''/c''\<rparr>,
                       CallNext [Err (ExternalError ''object not found''), Ok 7]]\<rparr>)))
     = [CallNewIterator \<lparr>ID = ''c'', Repo = ''/c''\<rparr>,
        CallNext [Err (ExternalError ''object not found''), Ok 7],
        CallClose [Ok 7], CallIterClose]"
proof -
  let ?i = "(driver_of False [gitRepo ''c'' ''/c''])
         \<lparr>currRepoIter := Some [Err (ExternalError ''object not found''), Ok 7]\<rparr>"
  let ?j = "driver_of False [gitRepo ''c'' ''/c'']"
  have d: "ExternalError ''object not found'' \<noteq> EOF"
    by simp
  have e: "\<not> SkipGitErrors (session ?i)" "\<not> SkipGitErrors (session ?j)"
    by (simp_all add: driver_of_def)
  have b: "currRepoIter ?i = Some [Err (ExternalError ''object not found''), Ok 7]"
    "currRepoIter ?j = None"
    by (simp_all add: driver_of_def)
  note active = Next_error_surfaces_unclosed [OF iterator_c(3) iterator_c(2) d e(1),
      where genv = env_ok, THEN conjunct1, rule_format, OF b(1)]
  note fresh = Next_error_surfaces_unclosed [OF iterator_c(3) iterator_c(2) d e(2),
      where genv = env_ok, THEN conjunct2, rule_format,
      OF conjI [OF b(2) conjI [OF cursor_c iterator_c(1)]]]
  from active fresh show ?thesis
    by (simp add: driver_of_def)
qed

theorem Next_error_not_closed_counterexample:
  "rowRepoIter_Next env_ok env_rows (driver_of False [gitRepo ''c'' ''/c''])
     = Some (Err (ExternalError ''object not found''),
         (driver_of False [gitRepo ''c'' ''/c''])
           \<lparr>currRepoIter := Some [Ok 7],
             repositoryIter := \<lparr>pos = 1, pool = pool_of [gitRepo ''c'' ''/c'']\<rparr>,
             polls := 1,
             trace := [CallNewIterator \<lparr>ID = ''c'', Repo = ''/c''\<rparr>,
                       CallNext [Err (ExternalError ''object not found''), Ok 7]]\<rparr>)
   \<and> closed [CallNewIterator \<lparr>ID = ''c'', Repo = ''/c''\<rparr>,
               CallNext [Err (ExternalError ''object not found''), Ok 7]] = []"
  by code_simp


end
